theory Spec2Isabelle
  imports Complex_Main "HOL-Library.Multiset"
begin

section \<open>Data model\<close>

text \<open>
  The program (\<^verbatim>\<open>index.js\<close>) matches game names against the Steam catalog. A catalog
  entry is an object \<^verbatim>\<open>{appid, name}\<close>; a query name is a string. JavaScript strings are
  sequences of UTF-16 code units; the model uses \<^typ>\<open>string\<close>, that is code units in
  the range U+0000 to U+00FF, compared with \<^verbatim>\<open>===\<close> unit by unit.
\<close>

record app =
  appid :: int
  name :: string

subsection \<open>Ordinary JavaScript objects used as name-keyed mappings\<close>

text \<open>
  The three result mappings are ordinary objects created by \<^verbatim>\<open>{}\<close> and filled by
  \<^verbatim>\<open>obj[key] = value\<close>. An object is modelled by the list of its own properties in
  creation order. Two rules of the language are written out, because the results are
  read back through \<^verbatim>\<open>Object.keys\<close>, \<^verbatim>\<open>Object.entries\<close> and \<^verbatim>\<open>JSON.stringify\<close>:

  \<^item> own keys are enumerated with the array indices first (canonical decimal numerals
    below \<open>2^32 - 1\<close>), in ascending numeric order, and the other string keys after
    them, in creation order;
  \<^item> the assignment \<^verbatim>\<open>obj["__proto__"] = value\<close> on an object created by \<^verbatim>\<open>{}\<close> runs the
    setter inherited from \<^verbatim>\<open>Object.prototype\<close>: it replaces the prototype when the value
    is an object and does nothing otherwise; in both cases no own property is created.
    Every other assignment creates the own property, or overwrites its value in place.
\<close>

type_synonym 'v jsobject = "(string \<times> 'v) list"

definition is_digit :: "char \<Rightarrow> bool" where
  "is_digit c = (48 \<le> (of_char c :: nat) \<and> (of_char c :: nat) \<le> 57)"

definition digit_value :: "char \<Rightarrow> nat" where
  "digit_value c = (of_char c :: nat) - 48"

definition numeral_value :: "string \<Rightarrow> nat" where
  "numeral_value k = foldl (\<lambda>n c. 10 * n + digit_value c) 0 k"

definition canonical_numeral :: "string \<Rightarrow> bool" where
  "canonical_numeral k =
     (case k of
        [] \<Rightarrow> False
      | c # cs \<Rightarrow> list_all is_digit k \<and> (if c = CHR ''0'' then cs = [] else True))"

definition array_index :: "string \<Rightarrow> nat option" where
  "array_index k =
     (if canonical_numeral k \<and> numeral_value k < 4294967295
      then Some (numeral_value k) else None)"

definition is_array_index :: "string \<Rightarrow> bool" where
  "is_array_index k = (case array_index k of None \<Rightarrow> False | Some n \<Rightarrow> True)"

definition index_value :: "string \<Rightarrow> nat" where
  "index_value k = (case array_index k of None \<Rightarrow> 0 | Some n \<Rightarrow> n)"

text \<open>\<^verbatim>\<open>Object.entries(obj)\<close>; \<^verbatim>\<open>Object.keys\<close> and \<^verbatim>\<open>JSON.stringify\<close> follow the same order.\<close>

definition entries :: "'v jsobject \<Rightarrow> (string \<times> 'v) list" where
  "entries obj =
     sort_key (\<lambda>p. index_value (fst p)) (filter (\<lambda>p. is_array_index (fst p)) obj)
     @ filter (\<lambda>p. \<not> is_array_index (fst p)) obj"

definition keys :: "'v jsobject \<Rightarrow> string list" where
  "keys obj = map fst (entries obj)"

text \<open>Reading an own property, \<^verbatim>\<open>obj[key]\<close> restricted to own properties.\<close>

definition get_own :: "'v jsobject \<Rightarrow> string \<Rightarrow> 'v option" where
  "get_own obj k = map_of obj k"

text \<open>Creating or overwriting an own data property (\<^verbatim>\<open>CreateDataProperty\<close>).\<close>

fun define_own :: "string \<Rightarrow> 'v \<Rightarrow> 'v jsobject \<Rightarrow> 'v jsobject" where
  "define_own k v [] = [(k, v)]"
| "define_own k v (p # ps) = (if fst p = k then (k, v) # ps else p # define_own k v ps)"

text \<open>The assignment \<^verbatim>\<open>obj[k] = v\<close>.\<close>

definition assign :: "string \<Rightarrow> 'v \<Rightarrow> 'v jsobject \<Rightarrow> 'v jsobject" where
  "assign k v obj = (if k = ''__proto__'' then obj else define_own k v obj)"

text \<open>\<^verbatim>\<open>Object.fromEntries(es)\<close>: a new object, one \<^verbatim>\<open>CreateDataProperty\<close> per entry, in order.\<close>

definition fromEntries :: "(string \<times> 'v) list \<Rightarrow> 'v jsobject" where
  "fromEntries es = foldl (\<lambda>obj p. define_own (fst p) (snd p) obj) [] es"

section \<open>The exact-match pass\<close>

text \<open>
  \<^verbatim>\<open>Object.values(steamApps).filter((app) => (app.name === game))\<close>: the catalog entries
  whose name is the query name, in catalog order.
\<close>

definition fullMatches :: "app list \<Rightarrow> string \<Rightarrow> app list" where
  "fullMatches steamApps game = filter (\<lambda>a. name a = game) steamApps"

record fullMatchResult =
  steamIDsSingleFullMatch :: "int jsobject"
  steamIDsMultipleFullMatches :: "int list jsobject"
  remainingGameNames :: "string list"

text \<open>One iteration of the loop \<^verbatim>\<open>for (const game of gameNames)\<close>.\<close>

definition fullMatchStep :: "app list \<Rightarrow> fullMatchResult \<Rightarrow> string \<Rightarrow> fullMatchResult" where
  "fullMatchStep steamApps r game =
     (let fm = fullMatches steamApps game in
      if length fm = 1 then
        r\<lparr>steamIDsSingleFullMatch := assign game (appid (fm ! 0)) (steamIDsSingleFullMatch r)\<rparr>
      else if length fm > 1 then
        r\<lparr>steamIDsMultipleFullMatches :=
            assign game (map appid fm) (steamIDsMultipleFullMatches r)\<rparr>
      else
        r\<lparr>remainingGameNames := remainingGameNames r @ [game]\<rparr>)"

fun fullMatchLoop :: "app list \<Rightarrow> string list \<Rightarrow> fullMatchResult \<Rightarrow> fullMatchResult" where
  "fullMatchLoop steamApps [] r = r"
| "fullMatchLoop steamApps (game # rest) r =
     fullMatchLoop steamApps rest (fullMatchStep steamApps r game)"

definition findSteamAppIdsFullMatch :: "string list \<Rightarrow> app list \<Rightarrow> fullMatchResult" where
  "findSteamAppIdsFullMatch gameNames steamApps =
     fullMatchLoop steamApps gameNames
       \<lparr>steamIDsSingleFullMatch = [], steamIDsMultipleFullMatches = [],
        remainingGameNames = []\<rparr>"

section \<open>The similarity pass\<close>

subsection \<open>Lower-casing\<close>

text \<open>
  \<^verbatim>\<open>String.prototype.toLowerCase\<close> on code units up to U+00FF: the letters A to Z and the
  Latin-1 capitals U+00C0 to U+00DE (without the multiplication sign U+00D7) move up by
  32; every other unit stays.
\<close>

definition toLowerCase_unit :: "char \<Rightarrow> char" where
  "toLowerCase_unit c =
     (let n = (of_char c :: nat) in
      if (65 \<le> n \<and> n \<le> 90) \<or> (192 \<le> n \<and> n \<le> 222 \<and> n \<noteq> 215)
      then char_of (n + 32) else c)"

definition toLowerCase :: "string \<Rightarrow> string" where
  "toLowerCase s = map toLowerCase_unit s"

subsection \<open>The package \<^verbatim>\<open>string-similarity\<close>\<close>

text \<open>
  The program imports \<^verbatim>\<open>stringSimilarity\<close> from the package \<^verbatim>\<open>string-similarity\<close>, whose
  code is not part of the repository's sources. Ratings are JavaScript numbers; every
  finite number is a rational, and \<^verbatim>\<open>>=\<close> and the sign of a difference agree with the
  order of the rationals, so a rating is a \<^typ>\<open>rat\<close>. Two things of the package are
  parameters of the pass: the rating function \<open>cmp\<close> (\<open>compareTwoStrings\<close> below is the
  rating the specification describes), and \<open>onEmpty\<close>, what \<^verbatim>\<open>findBestMatch\<close> does when it is
  called with an empty list of targets, which neither the sources nor the specification
  say: a throw (\<open>Inl\<close>) or some result (\<open>Inr\<close>), possibly depending on the main string.
\<close>

text \<open>
  Modelled from the spec: the bigrams (two-character substrings) of a string, in order,
  repeated ones kept. The package \<^verbatim>\<open>string-similarity\<close> is missing from the sources.
\<close>

fun bigrams :: "string \<Rightarrow> (char \<times> char) list" where
  "bigrams (a # b # cs) = (a, b) # bigrams (b # cs)"
| "bigrams cs = []"

text \<open>
  Modelled from the spec: the size of the intersection of two bigram lists, computed
  with multiplicity (each element of the second list is used up by one match).
\<close>

fun overlap :: "'a list \<Rightarrow> 'a list \<Rightarrow> nat" where
  "overlap [] ys = 0"
| "overlap (x # xs) ys =
     (if x \<in> set ys then Suc (overlap xs (remove1 x ys)) else overlap xs ys)"

text \<open>
  Modelled from the spec: the rating function of the package \<^verbatim>\<open>string-similarity\<close>, which
  is missing from the sources. The specification gives the score as
  \<open>2 * |bigrams(A) \<inter> bigrams(B)| / (|bigrams(A)| + |bigrams(B)|)\<close>, and for a string
  shorter than 2 characters the score 0 unless the strings are identical, in which case
  the score is 1.
\<close>

definition compareTwoStrings :: "string \<Rightarrow> string \<Rightarrow> rat" where
  "compareTwoStrings A B =
     (if length A < 2 \<or> length B < 2 then (if A = B then 1 else 0)
      else 2 * of_nat (overlap (bigrams A) (bigrams B))
             / of_nat (length (bigrams A) + length (bigrams B)))"

text \<open>
  What the program can throw: an error raised inside the package, and the \<^verbatim>\<open>TypeError\<close> of
  reading a property of \<^verbatim>\<open>undefined\<close>.
\<close>

datatype error = PackageError | TypeError

record bestMatchResult =
  rating :: rat
  bestMatchIndex :: nat

text \<open>
  Modelled from the spec: the selection of the maximum score with ties broken by the
  first occurrence, as a scan of the ratings from position \<open>i\<close> that replaces the best
  match so far only by a strictly greater rating.
\<close>

fun scanBest :: "rat list \<Rightarrow> nat \<Rightarrow> bestMatchResult \<Rightarrow> bestMatchResult" where
  "scanBest [] i b = b"
| "scanBest (r # rs) i b =
     scanBest rs (Suc i) (if rating b < r then \<lparr>rating = r, bestMatchIndex = i\<rparr> else b)"

text \<open>
  Modelled from the spec: \<^verbatim>\<open>findBestMatch\<close> of the package \<^verbatim>\<open>string-similarity\<close>, which is
  missing from the sources. The specification has it rate the main string against
  every target and select the target with the maximum score, ties broken by the first
  occurrence; the program reads the rating and the index of the selected target. The
  specification is silent about an empty list of targets: there the model returns the
  parameter \<open>onEmpty\<close>.
\<close>

definition findBestMatch ::
  "(string \<Rightarrow> error + bestMatchResult) \<Rightarrow> (string \<Rightarrow> string \<Rightarrow> rat)
     \<Rightarrow> string \<Rightarrow> string list \<Rightarrow> error + bestMatchResult" where
  "findBestMatch onEmpty cmp mainString targetStrings =
     (case map (cmp mainString) targetStrings of
        [] \<Rightarrow> onEmpty mainString
      | r # rs \<Rightarrow> Inr (scanBest rs 1 \<lparr>rating = r, bestMatchIndex = 0\<rparr>))"

subsection \<open>\<^verbatim>\<open>findSteamAppIdsBestMatch\<close>\<close>

text \<open>
  The configuration the passes read: \<^verbatim>\<open>onlyFullMatches\<close> (an absent option is falsy, that
  is \<open>False\<close>) and the optional \<^verbatim>\<open>partialMatchThreshold\<close>.
\<close>

record config =
  onlyFullMatches :: bool
  partialMatchThreshold :: "rat option"

record bestMatchEntry =
  appId :: int
  similarity :: rat
  steamName :: string

record bestMatchPass =
  steamIDsBestMatch :: "bestMatchEntry jsobject"
  steamIDsNoMatch :: "string list"

text \<open>
  \<^verbatim>\<open>let partialMatchThreshold = 0; if (CONFIG.partialMatchThreshold) { ... }\<close>: an absent
  option and the number 0 are both falsy.
\<close>

definition thresholdOf :: "config \<Rightarrow> rat" where
  "thresholdOf CONFIG =
     (case partialMatchThreshold CONFIG of
        None \<Rightarrow> 0
      | Some t \<Rightarrow> if t = 0 then 0 else t)"

text \<open>
  The body of the loop for the query name \<open>game\<close> and its lower-cased copy. Reading
  \<^verbatim>\<open>steamApps[bestMatchIndex]\<close> beyond the array gives \<^verbatim>\<open>undefined\<close>, and reading \<^verbatim>\<open>.appid\<close>
  of it throws a \<^verbatim>\<open>TypeError\<close>.
\<close>

definition bestMatchStep ::
  "(string \<Rightarrow> error + bestMatchResult) \<Rightarrow> (string \<Rightarrow> string \<Rightarrow> rat)
     \<Rightarrow> rat \<Rightarrow> app list \<Rightarrow> string list \<Rightarrow> bestMatchPass
     \<Rightarrow> string \<Rightarrow> string \<Rightarrow> error + bestMatchPass" where
  "bestMatchStep onEmpty cmp thr steamApps steamAppsLowercase r game gameLowercase =
     (case findBestMatch onEmpty cmp gameLowercase steamAppsLowercase of
        Inl e \<Rightarrow> Inl e
      | Inr bm \<Rightarrow>
          if thr \<le> rating bm then
            (if bestMatchIndex bm < length steamApps then
               Inr (r\<lparr>steamIDsBestMatch :=
                      assign game
                        \<lparr>appId = appid (steamApps ! bestMatchIndex bm),
                         similarity = rating bm,
                         steamName = name (steamApps ! bestMatchIndex bm)\<rparr>
                        (steamIDsBestMatch r)\<rparr>)
             else Inl TypeError)
          else Inr (r\<lparr>steamIDsNoMatch := steamIDsNoMatch r @ [game]\<rparr>))"

text \<open>
  \<^verbatim>\<open>for (let i = 0; i < gameNamesLowercase.length; i++)\<close>: the loop over the indices
  \<open>[0..<length gameNamesLowercase]\<close>; a throw ends the pass.
\<close>

fun bestMatchLoop ::
  "(string \<Rightarrow> error + bestMatchResult) \<Rightarrow> (string \<Rightarrow> string \<Rightarrow> rat)
     \<Rightarrow> rat \<Rightarrow> app list \<Rightarrow> string list \<Rightarrow> string list
     \<Rightarrow> string list \<Rightarrow> nat list \<Rightarrow> bestMatchPass \<Rightarrow> error + bestMatchPass" where
  "bestMatchLoop onEmpty cmp thr steamApps steamAppsLowercase gameNames gameNamesLowercase [] r =
     Inr r"
| "bestMatchLoop onEmpty cmp thr steamApps steamAppsLowercase gameNames gameNamesLowercase (i # is) r =
     (case bestMatchStep onEmpty cmp thr steamApps steamAppsLowercase r
             (gameNames ! i) (gameNamesLowercase ! i) of
        Inl e \<Rightarrow> Inl e
      | Inr r' \<Rightarrow>
          bestMatchLoop onEmpty cmp thr steamApps steamAppsLowercase gameNames
            gameNamesLowercase is r')"

text \<open>
  \<^verbatim>\<open>.sort(([, a], [, b]) => b.similarity - a.similarity)\<close>: the sort of the language is
  stable, so the result is the one stable arrangement by descending similarity. Each
  entry is put behind the entries that are not smaller.
\<close>

fun insertDescending ::
  "(string \<times> bestMatchEntry) \<Rightarrow> (string \<times> bestMatchEntry) list
     \<Rightarrow> (string \<times> bestMatchEntry) list" where
  "insertDescending e [] = [e]"
| "insertDescending e (x # xs) =
     (if similarity (snd x) < similarity (snd e) then e # x # xs
      else x # insertDescending e xs)"

definition sortBySimilarity ::
  "(string \<times> bestMatchEntry) list \<Rightarrow> (string \<times> bestMatchEntry) list" where
  "sortBySimilarity es = foldl (\<lambda>acc e. insertDescending e acc) [] es"

definition findSteamAppIdsBestMatch ::
  "(string \<Rightarrow> error + bestMatchResult) \<Rightarrow> (string \<Rightarrow> string \<Rightarrow> rat)
     \<Rightarrow> config \<Rightarrow> string list \<Rightarrow> app list \<Rightarrow> error + bestMatchPass" where
  "findSteamAppIdsBestMatch onEmpty cmp CONFIG gameNames steamApps =
     (let partialMatchThreshold = thresholdOf CONFIG;
          steamAppsLowercase = map (\<lambda>a. toLowerCase (name a)) steamApps;
          gameNamesLowercase = map toLowerCase gameNames
      in case bestMatchLoop onEmpty cmp partialMatchThreshold steamApps steamAppsLowercase
                gameNames gameNamesLowercase [0..<length gameNamesLowercase]
                \<lparr>steamIDsBestMatch = [], steamIDsNoMatch = []\<rparr> of
           Inl e \<Rightarrow> Inl e
         | Inr r \<Rightarrow>
             Inr (r\<lparr>steamIDsBestMatch :=
                    fromEntries (sortBySimilarity (entries (steamIDsBestMatch r)))\<rparr>))"

section \<open>The pipeline\<close>

text \<open>
  \<^verbatim>\<open>main\<close> after the two loads: \<open>steamApps\<close> is the fetched catalog and \<open>gameNames\<close> the
  split input file. The run writes up to four files; a file is the \<^verbatim>\<open>JSON.stringify\<close>
  of a grouping, modelled by the grouping's entries in serialisation order. A throw of
  the similarity pass ends the run after the files of the exact-match pass are written.
\<close>

record run =
  fullMatchesFile :: "(string \<times> int) list option"
  multipleFullMatchesFile :: "(string \<times> int list) list option"
  bestMatchFile :: "(string \<times> bestMatchEntry) list option"
  noMatchFile :: "string list option"
  thrown :: "error option"

definition main :: "(string \<Rightarrow> error + bestMatchResult) \<Rightarrow> (string \<Rightarrow> string \<Rightarrow> rat) \<Rightarrow> config \<Rightarrow> app list \<Rightarrow> string list \<Rightarrow> run" where
  "main onEmpty cmp CONFIG steamApps gameNames =
     (let fm = findSteamAppIdsFullMatch gameNames steamApps;
          gameNames' = remainingGameNames fm;
          out = \<lparr>fullMatchesFile =
                   (if length (keys (steamIDsSingleFullMatch fm)) > 0
                    then Some (entries (steamIDsSingleFullMatch fm)) else None),
                 multipleFullMatchesFile =
                   (if length (keys (steamIDsMultipleFullMatches fm)) > 0
                    then Some (entries (steamIDsMultipleFullMatches fm)) else None),
                 bestMatchFile = None, noMatchFile = None, thrown = None\<rparr>
      in if \<not> onlyFullMatches CONFIG then
           (case findSteamAppIdsBestMatch onEmpty cmp CONFIG gameNames' steamApps of
              Inl e \<Rightarrow> out\<lparr>thrown := Some e\<rparr>
            | Inr bm \<Rightarrow>
                out\<lparr>bestMatchFile := Some (entries (steamIDsBestMatch bm)),
                    noMatchFile :=
                      (if length (steamIDsNoMatch bm) > 0
                       then Some (steamIDsNoMatch bm) else None)\<rparr>)
         else out)"

section \<open>Example inputs\<close>

text \<open>The example scenario of the specification.\<close>

definition example_catalog :: "app list" where
  "example_catalog = [\<lparr>appid = 1, name = ''Portal''\<rparr>, \<lparr>appid = 2, name = ''Portal 2''\<rparr>]"

definition example_names :: "string list" where
  "example_names = [''Portal'', ''portal 2'', ''Halo'']"

text \<open>A catalog with two entries of one name, and an input that repeats names.\<close>

definition duplicate_catalog :: "app list" where
  "duplicate_catalog =
     [\<lparr>appid = 1, name = ''Portal''\<rparr>, \<lparr>appid = 2, name = ''Doom''\<rparr>,
      \<lparr>appid = 3, name = ''Doom''\<rparr>]"

definition duplicate_names :: "string list" where
  "duplicate_names = [''Portal'', ''Halo'', ''Portal'', ''Halo'', ''Doom'']"

text \<open>A catalog with two entries named \<open>__proto__\<close>.\<close>

definition proto_catalog :: "app list" where
  "proto_catalog = [\<lparr>appid = 10, name = ''__proto__''\<rparr>, \<lparr>appid = 20, name = ''__proto__''\<rparr>]"

text \<open>A catalog with one entry named \<open>__proto__\<close>.\<close>

definition proto_single_catalog :: "app list" where
  "proto_single_catalog = [\<lparr>appid = 10, name = ''__proto__''\<rparr>]"

text \<open>A package whose \<^verbatim>\<open>findBestMatch\<close> throws on an empty list of targets.\<close>

definition throwing :: "string \<Rightarrow> error + bestMatchResult" where
  "throwing s = Inl PackageError"

text \<open>Configurations: nothing set, a threshold of one half, and only full matches.\<close>

definition default_config :: config where
  "default_config = \<lparr>onlyFullMatches = False, partialMatchThreshold = None\<rparr>"

definition half_config :: config where
  "half_config = \<lparr>onlyFullMatches = False, partialMatchThreshold = Some (1 / 2)\<rparr>"

definition only_full_config :: config where
  "only_full_config = \<lparr>onlyFullMatches = True, partialMatchThreshold = None\<rparr>"

section \<open>Terms of the statements about the similarity pass\<close>

text \<open>
  The best match of a query name in a catalog with entries: the first maximum among the
  ratings of the lower-cased name against the lower-cased catalog names, which is what
  \<open>findBestMatch\<close> returns there (\<open>bestOf_nonempty\<close>). On an empty catalog it is a
  placeholder that no statement uses.
\<close>

definition bestOf :: "(string \<Rightarrow> string \<Rightarrow> rat) \<Rightarrow> app list \<Rightarrow> string \<Rightarrow> bestMatchResult" where
  "bestOf cmp steamApps game =
     (case map (cmp (toLowerCase game)) (map (\<lambda>a. toLowerCase (name a)) steamApps) of
        [] \<Rightarrow> \<lparr>rating = 0, bestMatchIndex = 0\<rparr>
      | r # rs \<Rightarrow> scanBest rs 1 \<lparr>rating = r, bestMatchIndex = 0\<rparr>)"

text \<open>The entry \<^verbatim>\<open>{appId, similarity, steamName}\<close> built from the best match of a name.\<close>

definition entryOf :: "(string \<Rightarrow> string \<Rightarrow> rat) \<Rightarrow> app list \<Rightarrow> string \<Rightarrow> bestMatchEntry" where
  "entryOf cmp steamApps game =
     \<lparr>appId = appid (steamApps ! bestMatchIndex (bestOf cmp steamApps game)),
      similarity = rating (bestOf cmp steamApps game),
      steamName = name (steamApps ! bestMatchIndex (bestOf cmp steamApps game))\<rparr>"

text \<open>What one iteration of the loop does to the two groupings when nothing throws.\<close>

definition recordStep ::
  "(string \<Rightarrow> string \<Rightarrow> rat) \<Rightarrow> rat \<Rightarrow> app list \<Rightarrow> bestMatchPass \<Rightarrow> string \<Rightarrow> bestMatchPass" where
  "recordStep cmp thr steamApps r game =
     (if thr \<le> rating (bestOf cmp steamApps game)
      then r\<lparr>steamIDsBestMatch :=
               assign game (entryOf cmp steamApps game) (steamIDsBestMatch r)\<rparr>
      else r\<lparr>steamIDsNoMatch := steamIDsNoMatch r @ [game]\<rparr>)"

text \<open>Descending order of similarity, as a property of a list of entries.\<close>

definition descending :: "(string \<times> bestMatchEntry) list \<Rightarrow> bool" where
  "descending es = sorted_wrt (\<lambda>a b. similarity (snd b) \<le> similarity (snd a)) es"

section \<open>The two passes on a store\<close>

text \<open>
  Arrays and objects are mutable, and a function receives references to them. To state
  what a pass writes, both passes are given once more on an explicit store: a map from
  addresses to arrays and objects, with the next free address. \<^verbatim>\<open>[]\<close>, \<^verbatim>\<open>{}\<close>, \<^verbatim>\<open>.map\<close>,
  \<^verbatim>\<open>.filter\<close>, \<^verbatim>\<open>Object.values\<close>, \<^verbatim>\<open>Object.entries\<close> and \<^verbatim>\<open>Object.fromEntries\<close> create a new
  array or object; \<^verbatim>\<open>.push\<close>, \<^verbatim>\<open>obj[key] = value\<close> and \<^verbatim>\<open>.sort\<close> write to the one they are
  called on. Strings are immutable values, and the passes only read the fields of a
  catalog entry, so an array cell holds its elements. The arrays that \<^verbatim>\<open>.filter\<close> and the
  inner \<^verbatim>\<open>.map\<close> create in the exact-match pass are never written and are dropped at the
  end of the iteration; they appear as values.
\<close>

datatype cell =
    AppArray "app list"
  | NameArray "string list"
  | IdObject "int jsobject"
  | IdsObject "int list jsobject"
  | MatchObject "bestMatchEntry jsobject"
  | EntryArray "(string \<times> bestMatchEntry) list"

record store =
  cells :: "nat \<Rightarrow> cell option"
  fresh :: nat

definition alloc :: "cell \<Rightarrow> store \<Rightarrow> nat \<times> store" where
  "alloc c h = (fresh h, \<lparr>cells = (cells h)(fresh h \<mapsto> c), fresh = Suc (fresh h)\<rparr>)"

definition put :: "nat \<Rightarrow> cell \<Rightarrow> store \<Rightarrow> store" where
  "put a c h = h\<lparr>cells := (cells h)(a \<mapsto> c)\<rparr>"

text \<open>
  Reading a reference as an array or object of the expected kind (the passes are called
  with references of the right kind; any other cell reads as empty).
\<close>

definition apps_at :: "store \<Rightarrow> nat \<Rightarrow> app list" where
  "apps_at h a = (case cells h a of Some (AppArray xs) \<Rightarrow> xs | _ \<Rightarrow> [])"

definition names_at :: "store \<Rightarrow> nat \<Rightarrow> string list" where
  "names_at h a = (case cells h a of Some (NameArray xs) \<Rightarrow> xs | _ \<Rightarrow> [])"

definition ids_at :: "store \<Rightarrow> nat \<Rightarrow> int jsobject" where
  "ids_at h a = (case cells h a of Some (IdObject obj) \<Rightarrow> obj | _ \<Rightarrow> [])"

definition idlists_at :: "store \<Rightarrow> nat \<Rightarrow> int list jsobject" where
  "idlists_at h a = (case cells h a of Some (IdsObject obj) \<Rightarrow> obj | _ \<Rightarrow> [])"

definition matches_at :: "store \<Rightarrow> nat \<Rightarrow> bestMatchEntry jsobject" where
  "matches_at h a = (case cells h a of Some (MatchObject obj) \<Rightarrow> obj | _ \<Rightarrow> [])"

definition entries_at :: "store \<Rightarrow> nat \<Rightarrow> (string \<times> bestMatchEntry) list" where
  "entries_at h a = (case cells h a of Some (EntryArray es) \<Rightarrow> es | _ \<Rightarrow> [])"

text \<open>The exact-match pass; \<open>steamApps\<close>, \<open>single\<close>, \<open>multiple\<close>, \<open>remaining\<close> are references.\<close>

definition fullMatchStep_store :: "nat \<Rightarrow> nat \<Rightarrow> nat \<Rightarrow> nat \<Rightarrow> store \<Rightarrow> string \<Rightarrow> store" where
  "fullMatchStep_store steamApps single multiple remaining h game =
     (let fm = fullMatches (apps_at h steamApps) game in
      if length fm = 1 then
        put single (IdObject (assign game (appid (fm ! 0)) (ids_at h single))) h
      else if length fm > 1 then
        put multiple (IdsObject (assign game (map appid fm) (idlists_at h multiple))) h
      else
        put remaining (NameArray (names_at h remaining @ [game])) h)"

fun fullMatchLoop_store :: "nat \<Rightarrow> nat \<Rightarrow> nat \<Rightarrow> nat \<Rightarrow> string list \<Rightarrow> store \<Rightarrow> store" where
  "fullMatchLoop_store steamApps single multiple remaining [] h = h"
| "fullMatchLoop_store steamApps single multiple remaining (game # rest) h =
     fullMatchLoop_store steamApps single multiple remaining rest
       (fullMatchStep_store steamApps single multiple remaining h game)"

text \<open>
  The references of the three groupings and the store after the pass. The loop visits
  the elements that the array \<open>gameNames\<close> holds; the pass does not write to it.
\<close>

definition findSteamAppIdsFullMatch_store ::
  "nat \<Rightarrow> nat \<Rightarrow> store \<Rightarrow> (nat \<times> nat \<times> nat) \<times> store" where
  "findSteamAppIdsFullMatch_store gameNames steamApps h =
     (let (single, h1) = alloc (IdObject []) h;
          (multiple, h2) = alloc (IdsObject []) h1;
          (remaining, h3) = alloc (NameArray []) h2;
          h4 = fullMatchLoop_store steamApps single multiple remaining
                 (names_at h3 gameNames) h3
      in ((single, multiple, remaining), h4))"

text \<open>The similarity pass; a throw leaves the store as it is at that moment.\<close>

definition bestMatchStep_store ::
  "(string \<Rightarrow> error + bestMatchResult) \<Rightarrow> (string \<Rightarrow> string \<Rightarrow> rat)
     \<Rightarrow> rat \<Rightarrow> nat \<Rightarrow> nat \<Rightarrow> nat \<Rightarrow> nat \<Rightarrow> store
     \<Rightarrow> string \<Rightarrow> string \<Rightarrow> error + store" where
  "bestMatchStep_store onEmpty cmp thr steamApps steamAppsLowercase best noMatch h game gameLowercase =
     (case findBestMatch onEmpty cmp gameLowercase (names_at h steamAppsLowercase) of
        Inl e \<Rightarrow> Inl e
      | Inr bm \<Rightarrow>
          if thr \<le> rating bm then
            (if bestMatchIndex bm < length (apps_at h steamApps) then
               Inr (put best
                      (MatchObject
                         (assign game
                            \<lparr>appId = appid (apps_at h steamApps ! bestMatchIndex bm),
                             similarity = rating bm,
                             steamName = name (apps_at h steamApps ! bestMatchIndex bm)\<rparr>
                            (matches_at h best))) h)
             else Inl TypeError)
          else Inr (put noMatch (NameArray (names_at h noMatch @ [game])) h))"

fun bestMatchLoop_store ::
  "(string \<Rightarrow> error + bestMatchResult) \<Rightarrow> (string \<Rightarrow> string \<Rightarrow> rat)
     \<Rightarrow> rat \<Rightarrow> nat \<Rightarrow> nat \<Rightarrow> nat \<Rightarrow> nat \<Rightarrow> nat \<Rightarrow> nat
     \<Rightarrow> nat list \<Rightarrow> store \<Rightarrow> error option \<times> store" where
  "bestMatchLoop_store onEmpty cmp thr steamApps steamAppsLowercase gameNames gameNamesLowercase
     best noMatch [] h = (None, h)"
| "bestMatchLoop_store onEmpty cmp thr steamApps steamAppsLowercase gameNames gameNamesLowercase
     best noMatch (i # is) h =
     (case bestMatchStep_store onEmpty cmp thr steamApps steamAppsLowercase best noMatch h
             (names_at h gameNames ! i) (names_at h gameNamesLowercase ! i) of
        Inl e \<Rightarrow> (Some e, h)
      | Inr h' \<Rightarrow>
          bestMatchLoop_store onEmpty cmp thr steamApps steamAppsLowercase gameNames
            gameNamesLowercase best noMatch is h')"

definition findSteamAppIdsBestMatch_store ::
  "(string \<Rightarrow> error + bestMatchResult) \<Rightarrow> (string \<Rightarrow> string \<Rightarrow> rat)
     \<Rightarrow> config \<Rightarrow> nat \<Rightarrow> nat \<Rightarrow> store
     \<Rightarrow> (error + nat \<times> nat) \<times> store" where
  "findSteamAppIdsBestMatch_store onEmpty cmp CONFIG gameNames steamApps h =
     (let (steamAppsLowercase, h1) =
            alloc (NameArray (map (\<lambda>a. toLowerCase (name a)) (apps_at h steamApps))) h;
          (gameNamesLowercase, h2) =
            alloc (NameArray (map toLowerCase (names_at h1 gameNames))) h1;
          (best, h3) = alloc (MatchObject []) h2;
          (noMatch, h4) = alloc (NameArray []) h3
      in case bestMatchLoop_store onEmpty cmp (thresholdOf CONFIG) steamApps steamAppsLowercase
                gameNames gameNamesLowercase best noMatch
                [0..<length (names_at h4 gameNamesLowercase)] h4 of
           (Some e, h5) \<Rightarrow> (Inl e, h5)
         | (None, h5) \<Rightarrow>
             (let (es, h6) = alloc (EntryArray (entries (matches_at h5 best))) h5;
                  h7 = put es (EntryArray (sortBySimilarity (entries_at h6 es))) h6;
                  (sorted, h8) = alloc (MatchObject (fromEntries (entries_at h7 es))) h7
              in (Inr (sorted, noMatch), h8)))"

text \<open>A store that holds the example catalog at address 0 and the example names at 1.\<close>

definition example_store :: store where
  "example_store =
     \<lparr>cells = [0 \<mapsto> AppArray example_catalog, 1 \<mapsto> NameArray example_names], fresh = 2\<rparr>"

section \<open>Facts about objects\<close>

lemmas js_eval =
  entries_def is_array_index_def index_value_def array_index_def canonical_numeral_def
  numeral_value_def is_digit_def digit_value_def keys_def get_own_def assign_def
  fromEntries_def findSteamAppIdsFullMatch_def fullMatchStep_def fullMatches_def
  toLowerCase_def toLowerCase_unit_def char_of_def bit_Suc_0_iff compareTwoStrings_def
  findBestMatch_def thresholdOf_def bestMatchStep_def sortBySimilarity_def
  findSteamAppIdsBestMatch_def main_def

lemma map_of_define_own: "map_of (define_own k v obj) = (map_of obj)(k \<mapsto> v)"
  by (induction obj) (auto simp: fun_eq_iff)

lemma keys_define_own:
  "map fst (define_own k v obj) = (if k \<in> fst ` set obj then map fst obj else map fst obj @ [k])"
  by (induction obj) (auto simp: image_iff)

lemma distinct_define_own:
  "distinct (map fst obj) \<Longrightarrow> distinct (map fst (define_own k v obj))"
  by (simp add: keys_define_own)

lemma get_own_assign:
  "get_own (assign k v obj) k' =
     (if k' = k \<and> k \<noteq> ''__proto__'' then Some v else get_own obj k')"
  by (simp add: get_own_def assign_def map_of_define_own)

lemma distinct_assign:
  "distinct (map fst obj) \<Longrightarrow> distinct (map fst (assign k v obj))"
  by (simp add: assign_def distinct_define_own)

lemma mset_entries: "mset (entries obj) = mset obj"
  by (simp add: entries_def)

lemma set_entries: "set (entries obj) = set obj"
  using mset_entries [of obj] by (metis set_mset_mset)

lemma set_keys: "set (keys obj) = fst ` set obj"
  by (simp add: keys_def set_entries)

lemma distinct_keys: "distinct (map fst obj) \<Longrightarrow> distinct (keys obj)"
proof -
  assume d: "distinct (map fst obj)"
  have "mset (map fst (entries obj)) = mset (map fst obj)"
    by (simp add: mset_entries)
  then show ?thesis
    unfolding keys_def using d by (metis mset_eq_imp_distinct_iff)
qed

lemma map_of_entries: "distinct (map fst obj) \<Longrightarrow> map_of (entries obj) = map_of obj"
  using distinct_keys [of obj] set_entries [of obj]
  by (simp add: keys_def map_of_inject_set)

lemma keys_iff_get_own: "k \<in> set (keys obj) \<longleftrightarrow> get_own obj k \<noteq> None"
  by (simp add: set_keys get_own_def map_of_eq_None_iff)

lemma entries_no_index:
  "list_all (\<lambda>p. \<not> is_array_index (fst p)) obj \<Longrightarrow> entries obj = obj"
  by (simp add: entries_def list_all_iff)

lemma fullMatchLoop_foldl: "fullMatchLoop steamApps gs r = foldl (fullMatchStep steamApps) r gs"
  by (induction gs arbitrary: r) simp_all

lemma findSteamAppIdsFullMatch_snoc:
  "findSteamAppIdsFullMatch (gs @ [g]) steamApps =
     fullMatchStep steamApps (findSteamAppIdsFullMatch gs steamApps) g"
  by (simp add: findSteamAppIdsFullMatch_def fullMatchLoop_foldl)

section \<open>The exact-match pass: what each name is recorded as\<close>

lemma findSteamAppIdsFullMatch_Nil:
  "findSteamAppIdsFullMatch [] steamApps =
     \<lparr>steamIDsSingleFullMatch = [], steamIDsMultipleFullMatches = [],
      remainingGameNames = []\<rparr>"
  by (simp add: findSteamAppIdsFullMatch_def)

lemma remaining_fullMatch:
  "remainingGameNames (findSteamAppIdsFullMatch gs steamApps) =
     filter (\<lambda>g. fullMatches steamApps g = []) gs"
proof (induction gs rule: rev_induct)
  case Nil
  show ?case by (simp add: findSteamAppIdsFullMatch_Nil)
next
  case (snoc g gs)
  have "fullMatches steamApps g = [] \<longleftrightarrow>
          \<not> (length (fullMatches steamApps g) = 1 \<or> 1 < length (fullMatches steamApps g))"
    by (cases "fullMatches steamApps g") auto
  with snoc show ?case
    by (simp add: findSteamAppIdsFullMatch_snoc fullMatchStep_def Let_def)
qed

lemma single_fullMatch:
  "get_own (steamIDsSingleFullMatch (findSteamAppIdsFullMatch gs steamApps)) g =
     (if g \<in> set gs \<and> g \<noteq> ''__proto__'' \<and> length (fullMatches steamApps g) = 1
      then Some (appid (fullMatches steamApps g ! 0)) else None)"
proof (induction gs rule: rev_induct)
  case Nil
  show ?case by (simp add: findSteamAppIdsFullMatch_Nil get_own_def)
next
  case (snoc x gs)
  then show ?case
    by (auto simp: findSteamAppIdsFullMatch_snoc fullMatchStep_def Let_def get_own_assign)
qed

lemma multiple_fullMatch:
  "get_own (steamIDsMultipleFullMatches (findSteamAppIdsFullMatch gs steamApps)) g =
     (if g \<in> set gs \<and> g \<noteq> ''__proto__'' \<and> 1 < length (fullMatches steamApps g)
      then Some (map appid (fullMatches steamApps g)) else None)"
proof (induction gs rule: rev_induct)
  case Nil
  show ?case by (simp add: findSteamAppIdsFullMatch_Nil get_own_def)
next
  case (snoc x gs)
  then show ?case
    by (auto simp: findSteamAppIdsFullMatch_snoc fullMatchStep_def Let_def get_own_assign)
qed

lemma distinct_fullMatch:
  "distinct (map fst (steamIDsSingleFullMatch (findSteamAppIdsFullMatch gs steamApps))) \<and>
   distinct (map fst (steamIDsMultipleFullMatches (findSteamAppIdsFullMatch gs steamApps)))"
proof (induction gs rule: rev_induct)
  case Nil
  show ?case by (simp add: findSteamAppIdsFullMatch_Nil)
next
  case (snoc x gs)
  then show ?case
    by (simp add: findSteamAppIdsFullMatch_snoc fullMatchStep_def Let_def distinct_assign)
qed

section \<open>Claims about the exact-match pass\<close>

text \<open>
  C1, as stated: the names of the three groups, taken as a multiset, are the input list.
  The two mappings are keyed by name, so a name that occurs twice in the input and has
  an exact match is one key: at the input \<open>[Portal, Portal]\<close> with the catalog
  \<open>[{appid: 1, name: Portal}]\<close> the three groups hold the name once.
\<close>

theorem C1_multiset_union_counterexample:
  "mset (keys (steamIDsSingleFullMatch
           (findSteamAppIdsFullMatch [''Portal'', ''Portal''] [\<lparr>appid = 1, name = ''Portal''\<rparr>])))
   + mset (keys (steamIDsMultipleFullMatches
           (findSteamAppIdsFullMatch [''Portal'', ''Portal''] [\<lparr>appid = 1, name = ''Portal''\<rparr>])))
   + mset (remainingGameNames
           (findSteamAppIdsFullMatch [''Portal'', ''Portal''] [\<lparr>appid = 1, name = ''Portal''\<rparr>]))
   \<noteq> mset [''Portal'', ''Portal'']"
  by (simp add: js_eval)

text \<open>
  C1, amended: for every catalog and every list of query names, the remaining list is
  the input list restricted to the names with no catalog entry of that exact name
  (every occurrence kept, in input order); each mapping holds a name at most once; a
  query name other than \<open>__proto__\<close> is a key of the unique mapping exactly when one
  catalog entry has that name, a key of the ambiguous mapping exactly when more than
  one has, and in the remaining list exactly when none has; and when \<open>__proto__\<close> is
  not queried, the names of the three groups, taken as a set, are the input names.
\<close>

theorem C1_exact_match_partition:
  "remainingGameNames (findSteamAppIdsFullMatch gameNames steamApps) =
     filter (\<lambda>game. fullMatches steamApps game = []) gameNames
   \<and> distinct (keys (steamIDsSingleFullMatch (findSteamAppIdsFullMatch gameNames steamApps)))
   \<and> distinct (keys (steamIDsMultipleFullMatches (findSteamAppIdsFullMatch gameNames steamApps)))
   \<and> (g \<noteq> ''__proto__'' \<longrightarrow>
        (g \<in> set (keys (steamIDsSingleFullMatch (findSteamAppIdsFullMatch gameNames steamApps)))
           \<longleftrightarrow> g \<in> set gameNames \<and> length (fullMatches steamApps g) = 1)
      \<and> (g \<in> set (keys (steamIDsMultipleFullMatches (findSteamAppIdsFullMatch gameNames steamApps)))
           \<longleftrightarrow> g \<in> set gameNames \<and> 1 < length (fullMatches steamApps g))
      \<and> (g \<in> set (remainingGameNames (findSteamAppIdsFullMatch gameNames steamApps))
           \<longleftrightarrow> g \<in> set gameNames \<and> length (fullMatches steamApps g) = 0))
   \<and> (''__proto__'' \<notin> set gameNames \<longrightarrow>
        set (keys (steamIDsSingleFullMatch (findSteamAppIdsFullMatch gameNames steamApps)))
        \<union> set (keys (steamIDsMultipleFullMatches (findSteamAppIdsFullMatch gameNames steamApps)))
        \<union> set (remainingGameNames (findSteamAppIdsFullMatch gameNames steamApps))
        = set gameNames)"
proof -
  let ?r = "findSteamAppIdsFullMatch gameNames steamApps"
  have rem: "remainingGameNames ?r = filter (\<lambda>game. fullMatches steamApps game = []) gameNames"
    by (rule remaining_fullMatch)
  have d1: "distinct (keys (steamIDsSingleFullMatch ?r))"
    using distinct_fullMatch [of gameNames steamApps] by (simp add: distinct_keys)
  have d2: "distinct (keys (steamIDsMultipleFullMatches ?r))"
    using distinct_fullMatch [of gameNames steamApps] by (simp add: distinct_keys)
  have k1: "x \<in> set (keys (steamIDsSingleFullMatch ?r)) \<longleftrightarrow>
              x \<in> set gameNames \<and> x \<noteq> ''__proto__'' \<and> length (fullMatches steamApps x) = 1"
    for x
    by (simp add: keys_iff_get_own single_fullMatch)
  have k2: "x \<in> set (keys (steamIDsMultipleFullMatches ?r)) \<longleftrightarrow>
              x \<in> set gameNames \<and> x \<noteq> ''__proto__'' \<and> 1 < length (fullMatches steamApps x)"
    for x
    by (simp add: keys_iff_get_own multiple_fullMatch)
  have k3: "x \<in> set (remainingGameNames ?r) \<longleftrightarrow>
              x \<in> set gameNames \<and> length (fullMatches steamApps x) = 0"
    for x
    by (simp add: rem)
  have classes: "length (fullMatches steamApps x) = 1 \<or> 1 < length (fullMatches steamApps x)
                   \<or> length (fullMatches steamApps x) = 0" for x
    by arith
  have union: "set (keys (steamIDsSingleFullMatch ?r))
        \<union> set (keys (steamIDsMultipleFullMatches ?r)) \<union> set (remainingGameNames ?r)
        = set gameNames" if "''__proto__'' \<notin> set gameNames"
  proof (rule set_eqI)
    fix x
    show "x \<in> set (keys (steamIDsSingleFullMatch ?r))
             \<union> set (keys (steamIDsMultipleFullMatches ?r)) \<union> set (remainingGameNames ?r)
          \<longleftrightarrow> x \<in> set gameNames"
      using that classes [of x] unfolding Un_iff k1 k2 k3 by blast
  qed
  show ?thesis
    using rem d1 d2 k1 [of g] k2 [of g] k3 [of g] union by blast
qed

theorem C1_exact_match_partition_witness:
  "remainingGameNames (findSteamAppIdsFullMatch duplicate_names duplicate_catalog)
     = [''Halo'', ''Halo'']
   \<and> ''Portal'' \<in> set (keys (steamIDsSingleFullMatch
                     (findSteamAppIdsFullMatch duplicate_names duplicate_catalog)))
   \<and> ''Portal'' \<notin> set (keys (steamIDsMultipleFullMatches
                     (findSteamAppIdsFullMatch duplicate_names duplicate_catalog)))
   \<and> set (keys (steamIDsSingleFullMatch
                     (findSteamAppIdsFullMatch duplicate_names duplicate_catalog)))
     \<union> set (keys (steamIDsMultipleFullMatches
                     (findSteamAppIdsFullMatch duplicate_names duplicate_catalog)))
     \<union> set (remainingGameNames (findSteamAppIdsFullMatch duplicate_names duplicate_catalog))
     = set duplicate_names"
proof -
  note h = C1_exact_match_partition [of duplicate_names duplicate_catalog "''Portal''"]
  have fm: "filter (\<lambda>game. fullMatches duplicate_catalog game = []) duplicate_names
              = [''Halo'', ''Halo'']"
    by (simp add: fullMatches_def duplicate_names_def duplicate_catalog_def)
  have one: "''Portal'' \<in> set duplicate_names
               \<and> length (fullMatches duplicate_catalog ''Portal'') = 1"
    by (simp add: fullMatches_def duplicate_names_def duplicate_catalog_def)
  have np: "''__proto__'' \<notin> set duplicate_names"
    by (simp add: duplicate_names_def)
  have "''Portal'' \<noteq> ''__proto__''"
    by simp
  with h [THEN conjunct2, THEN conjunct2, THEN conjunct2, THEN conjunct1]
  have keys: "(''Portal'' \<in> set (keys (steamIDsSingleFullMatch
                     (findSteamAppIdsFullMatch duplicate_names duplicate_catalog))))
      \<and> (''Portal'' \<notin> set (keys (steamIDsMultipleFullMatches
                     (findSteamAppIdsFullMatch duplicate_names duplicate_catalog))))"
    using one by simp
  from h [THEN conjunct1] fm keys
    h [THEN conjunct2, THEN conjunct2, THEN conjunct2, THEN conjunct2, THEN mp, OF np]
  show ?thesis
    by (simp only: simp_thms)
qed

lemma map_insort_key:
  "map f (insort_key (\<lambda>x. g (f x)) x ys) = insort_key g (f x) (map f ys)"
  by (induction ys) simp_all

lemma map_sort_key: "map f (sort_key (\<lambda>x. g (f x)) xs) = sort_key g (map f xs)"
  by (induction xs) (simp_all add: map_insort_key)

lemma keys_by_names:
  "keys obj =
     sort_key index_value (filter is_array_index (map fst obj))
     @ filter (\<lambda>k. \<not> is_array_index k) (map fst obj)"
  by (simp add: keys_def entries_def map_sort_key filter_map comp_def)

lemma keys_cong: "map fst obj = map fst obj' \<Longrightarrow> keys obj = keys obj'"
  by (simp add: keys_by_names)

lemma keys_assign_present:
  "k \<in> set (keys obj) \<Longrightarrow> keys (assign k v obj) = keys obj"
  by (rule keys_cong) (simp add: assign_def keys_define_own set_keys)

lemma assign_overwrites:
  "k \<noteq> ''__proto__'' \<Longrightarrow>
     get_own (assign k v2 (assign k v1 obj)) k = Some v2
     \<and> keys (assign k v2 (assign k v1 obj)) = keys (assign k v1 obj)"
  by (simp add: get_own_assign keys_assign_present keys_iff_get_own)

lemma ambiguous_match_recorded:
  "game \<in> set gameNames \<Longrightarrow> game \<noteq> ''__proto__'' \<Longrightarrow>
   1 < length (filter (\<lambda>a. name a = game) steamApps) \<Longrightarrow>
   get_own (steamIDsMultipleFullMatches (findSteamAppIdsFullMatch gameNames steamApps)) game
     = Some (map appid (filter (\<lambda>a. name a = game) steamApps))"
  using multiple_fullMatch [of gameNames steamApps game] by (simp add: fullMatches_def)

text \<open>
  C4: when the catalog holds two or more entries named exactly as a query name \<open>N\<close>, the
  pass records \<open>N\<close> in the ambiguous mapping with the identifiers of all these entries in
  catalog order. The pass does so for every name but \<open>__proto__\<close>
  (\<open>ambiguous_match_recorded\<close>). For the query name \<open>__proto__\<close> and a catalog with two
  entries of that name, the assignment \<^verbatim>\<open>steamIDsMultipleFullMatches["__proto__"] = [10, 20]\<close>
  replaces the prototype of the mapping and creates no key: the name is in none of the
  three groups.
\<close>

theorem C4_proto_name_not_recorded:
  "length (fullMatches proto_catalog ''__proto__'') = 2
   \<and> get_own (steamIDsMultipleFullMatches
        (findSteamAppIdsFullMatch [''__proto__''] proto_catalog)) ''__proto__'' = None
   \<and> findSteamAppIdsFullMatch [''__proto__''] proto_catalog
       = \<lparr>steamIDsSingleFullMatch = [], steamIDsMultipleFullMatches = [],
          remainingGameNames = []\<rparr>"
  by (simp add: js_eval proto_catalog_def)

text \<open>
  A name that occurs again in the input, stated on the input: for a name \<open>g\<close> other than
  \<open>__proto__\<close> that already occurs in \<open>gs\<close>, the pass on \<open>gs @ [g]\<close> assigns the key \<open>g\<close>
  once more. With one catalog entry of that name, \<open>g\<close> is a key of the unique mapping
  after \<open>gs\<close>, the last occurrence assigns it again, the keys stay the same and the key
  holds the identifier of that entry; likewise with several entries and the ambiguous
  mapping; with none, \<open>g\<close> is appended to the remaining list again.
\<close>

lemma repeated_name_recorded:
  assumes "g \<in> set gs" and "g \<noteq> ''__proto__''"
  shows "(length (fullMatches steamApps g) = 1 \<longrightarrow>
            g \<in> set (keys (steamIDsSingleFullMatch (findSteamAppIdsFullMatch gs steamApps)))
          \<and> steamIDsSingleFullMatch (findSteamAppIdsFullMatch (gs @ [g]) steamApps)
              = assign g (appid (fullMatches steamApps g ! 0))
                  (steamIDsSingleFullMatch (findSteamAppIdsFullMatch gs steamApps))
          \<and> keys (steamIDsSingleFullMatch (findSteamAppIdsFullMatch (gs @ [g]) steamApps))
              = keys (steamIDsSingleFullMatch (findSteamAppIdsFullMatch gs steamApps))
          \<and> get_own (steamIDsSingleFullMatch (findSteamAppIdsFullMatch (gs @ [g]) steamApps)) g
              = Some (appid (fullMatches steamApps g ! 0)))
       \<and> (1 < length (fullMatches steamApps g) \<longrightarrow>
            g \<in> set (keys (steamIDsMultipleFullMatches (findSteamAppIdsFullMatch gs steamApps)))
          \<and> steamIDsMultipleFullMatches (findSteamAppIdsFullMatch (gs @ [g]) steamApps)
              = assign g (map appid (fullMatches steamApps g))
                  (steamIDsMultipleFullMatches (findSteamAppIdsFullMatch gs steamApps))
          \<and> keys (steamIDsMultipleFullMatches (findSteamAppIdsFullMatch (gs @ [g]) steamApps))
              = keys (steamIDsMultipleFullMatches (findSteamAppIdsFullMatch gs steamApps))
          \<and> get_own (steamIDsMultipleFullMatches
                        (findSteamAppIdsFullMatch (gs @ [g]) steamApps)) g
              = Some (map appid (fullMatches steamApps g)))
       \<and> (fullMatches steamApps g = [] \<longrightarrow>
            g \<in> set (remainingGameNames (findSteamAppIdsFullMatch gs steamApps))
          \<and> remainingGameNames (findSteamAppIdsFullMatch (gs @ [g]) steamApps)
              = remainingGameNames (findSteamAppIdsFullMatch gs steamApps) @ [g])"
proof -
  let ?r = "findSteamAppIdsFullMatch gs steamApps"
  let ?r' = "findSteamAppIdsFullMatch (gs @ [g]) steamApps"
  have step: "?r' = fullMatchStep steamApps ?r g"
    by (rule findSteamAppIdsFullMatch_snoc)
  have one: "g \<in> set (keys (steamIDsSingleFullMatch ?r))
          \<and> steamIDsSingleFullMatch ?r'
              = assign g (appid (fullMatches steamApps g ! 0)) (steamIDsSingleFullMatch ?r)
          \<and> keys (steamIDsSingleFullMatch ?r') = keys (steamIDsSingleFullMatch ?r)
          \<and> get_own (steamIDsSingleFullMatch ?r') g = Some (appid (fullMatches steamApps g ! 0))"
    if l: "length (fullMatches steamApps g) = 1"
  proof -
    have k: "g \<in> set (keys (steamIDsSingleFullMatch ?r))"
      using assms l by (simp add: keys_iff_get_own single_fullMatch)
    have a: "steamIDsSingleFullMatch ?r'
              = assign g (appid (fullMatches steamApps g ! 0)) (steamIDsSingleFullMatch ?r)"
      using l by (simp add: step fullMatchStep_def Let_def)
    show ?thesis
      using k a assms(2) by (simp add: keys_assign_present get_own_assign)
  qed
  have many: "g \<in> set (keys (steamIDsMultipleFullMatches ?r))
          \<and> steamIDsMultipleFullMatches ?r'
              = assign g (map appid (fullMatches steamApps g)) (steamIDsMultipleFullMatches ?r)
          \<and> keys (steamIDsMultipleFullMatches ?r') = keys (steamIDsMultipleFullMatches ?r)
          \<and> get_own (steamIDsMultipleFullMatches ?r') g
              = Some (map appid (fullMatches steamApps g))"
    if l: "1 < length (fullMatches steamApps g)"
  proof -
    have k: "g \<in> set (keys (steamIDsMultipleFullMatches ?r))"
      using assms l by (simp add: keys_iff_get_own multiple_fullMatch)
    have a: "steamIDsMultipleFullMatches ?r'
              = assign g (map appid (fullMatches steamApps g)) (steamIDsMultipleFullMatches ?r)"
      using l by (simp add: step fullMatchStep_def Let_def)
    show ?thesis
      using k a assms(2) by (simp add: keys_assign_present get_own_assign)
  qed
  have none: "g \<in> set (remainingGameNames ?r)
          \<and> remainingGameNames ?r' = remainingGameNames ?r @ [g]"
    if "fullMatches steamApps g = []"
    using that assms(1) by (simp add: remaining_fullMatch)
  show ?thesis
    using one many none by blast
qed

lemma repeated_unique_name_example:
  "findSteamAppIdsFullMatch [''Portal'', ''Halo'', ''Portal''] example_catalog
     = \<lparr>steamIDsSingleFullMatch = [(''Portal'', 1)], steamIDsMultipleFullMatches = [],
        remainingGameNames = [''Halo'']\<rparr>"
  by (simp add: js_eval example_catalog_def)

lemma repeated_proto_name_example:
  "length (fullMatches proto_single_catalog ''__proto__'') = 1
   \<and> get_own (steamIDsSingleFullMatch
        (findSteamAppIdsFullMatch [''__proto__'', ''__proto__''] proto_single_catalog))
        ''__proto__'' = None
   \<and> findSteamAppIdsFullMatch [''__proto__'', ''__proto__''] proto_single_catalog
       = \<lparr>steamIDsSingleFullMatch = [], steamIDsMultipleFullMatches = [],
          remainingGameNames = []\<rparr>"
  by (simp add: js_eval proto_single_catalog_def)

text \<open>
  C8: when a name occurs more than once in the input, every occurrence is processed and
  the later one overwrites the earlier one under the same key, so that the key holds the
  value of the last occurrence. For every name \<open>g\<close> but \<open>__proto__\<close> the pass does so: when
  \<open>g\<close> already occurs in \<open>gs\<close> and one catalog entry has that name, \<open>g\<close> is a key of the
  unique mapping after \<open>gs\<close>, the occurrence appended to \<open>gs\<close> assigns that key again, the
  keys stay the same and the key holds the identifier of the entry; likewise with
  several entries and the ambiguous mapping; with no entry the name is appended to the
  remaining list once more (nothing is deduplicated). For the input
  \<open>[__proto__, __proto__]\<close> and a catalog with one entry of that name it does not: each of
  the two assignments \<^verbatim>\<open>steamIDsSingleFullMatch["__proto__"] = 10\<close> runs the inherited
  setter, which ignores a number, so there is no key to overwrite and no value recorded,
  and the name is in none of the three groups.
\<close>

theorem C8_repeated_name:
  "(g \<in> set gs \<and> g \<noteq> ''__proto__'' \<longrightarrow>
      (length (fullMatches steamApps g) = 1 \<longrightarrow>
            g \<in> set (keys (steamIDsSingleFullMatch (findSteamAppIdsFullMatch gs steamApps)))
          \<and> steamIDsSingleFullMatch (findSteamAppIdsFullMatch (gs @ [g]) steamApps)
              = assign g (appid (fullMatches steamApps g ! 0))
                  (steamIDsSingleFullMatch (findSteamAppIdsFullMatch gs steamApps))
          \<and> keys (steamIDsSingleFullMatch (findSteamAppIdsFullMatch (gs @ [g]) steamApps))
              = keys (steamIDsSingleFullMatch (findSteamAppIdsFullMatch gs steamApps))
          \<and> get_own (steamIDsSingleFullMatch (findSteamAppIdsFullMatch (gs @ [g]) steamApps)) g
              = Some (appid (fullMatches steamApps g ! 0)))
       \<and> (1 < length (fullMatches steamApps g) \<longrightarrow>
            g \<in> set (keys (steamIDsMultipleFullMatches (findSteamAppIdsFullMatch gs steamApps)))
          \<and> steamIDsMultipleFullMatches (findSteamAppIdsFullMatch (gs @ [g]) steamApps)
              = assign g (map appid (fullMatches steamApps g))
                  (steamIDsMultipleFullMatches (findSteamAppIdsFullMatch gs steamApps))
          \<and> keys (steamIDsMultipleFullMatches (findSteamAppIdsFullMatch (gs @ [g]) steamApps))
              = keys (steamIDsMultipleFullMatches (findSteamAppIdsFullMatch gs steamApps))
          \<and> get_own (steamIDsMultipleFullMatches
                        (findSteamAppIdsFullMatch (gs @ [g]) steamApps)) g
              = Some (map appid (fullMatches steamApps g)))
       \<and> (fullMatches steamApps g = [] \<longrightarrow>
            g \<in> set (remainingGameNames (findSteamAppIdsFullMatch gs steamApps))
          \<and> remainingGameNames (findSteamAppIdsFullMatch (gs @ [g]) steamApps)
              = remainingGameNames (findSteamAppIdsFullMatch gs steamApps) @ [g]))
   \<and> length (fullMatches proto_single_catalog ''__proto__'') = 1
   \<and> get_own (steamIDsSingleFullMatch
        (findSteamAppIdsFullMatch [''__proto__'', ''__proto__''] proto_single_catalog))
        ''__proto__'' = None
   \<and> findSteamAppIdsFullMatch [''__proto__'', ''__proto__''] proto_single_catalog
       = \<lparr>steamIDsSingleFullMatch = [], steamIDsMultipleFullMatches = [],
          remainingGameNames = []\<rparr>"
  using repeated_name_recorded [of g gs steamApps] repeated_proto_name_example
  by blast

theorem C8_repeated_name_witness:
  "''Portal'' \<in> set [''Portal'', ''Halo''] \<and> ''Portal'' \<noteq> ''__proto__''
   \<and> length (fullMatches example_catalog ''Portal'') = 1
   \<and> ''Portal'' \<in> set (keys (steamIDsSingleFullMatch
                     (findSteamAppIdsFullMatch [''Portal'', ''Halo''] example_catalog)))
   \<and> keys (steamIDsSingleFullMatch
              (findSteamAppIdsFullMatch ([''Portal'', ''Halo''] @ [''Portal'']) example_catalog))
       = keys (steamIDsSingleFullMatch
                 (findSteamAppIdsFullMatch [''Portal'', ''Halo''] example_catalog))
   \<and> get_own (steamIDsSingleFullMatch
                 (findSteamAppIdsFullMatch ([''Portal'', ''Halo''] @ [''Portal''])
                    example_catalog)) ''Portal'' = Some 1
   \<and> ''Halo'' \<in> set [''Portal'', ''Halo''] \<and> ''Halo'' \<noteq> ''__proto__''
   \<and> fullMatches example_catalog ''Halo'' = []
   \<and> remainingGameNames
         (findSteamAppIdsFullMatch ([''Portal'', ''Halo''] @ [''Halo'']) example_catalog)
       = remainingGameNames (findSteamAppIdsFullMatch [''Portal'', ''Halo''] example_catalog)
         @ [''Halo'']"
proof -
  have p: "''Portal'' \<in> set [''Portal'', ''Halo''] \<and> ''Portal'' \<noteq> ''__proto__''"
    by simp
  have h: "''Halo'' \<in> set [''Portal'', ''Halo''] \<and> ''Halo'' \<noteq> ''__proto__''"
    by simp
  have fp: "fullMatches example_catalog ''Portal'' = [\<lparr>appid = 1, name = ''Portal''\<rparr>]"
    by (simp add: fullMatches_def example_catalog_def)
  have lp: "length (fullMatches example_catalog ''Portal'') = 1"
    by (simp add: fp)
  have fh: "fullMatches example_catalog ''Halo'' = []"
    by (simp add: fullMatches_def example_catalog_def)
  note tp = C8_repeated_name [of "''Portal''" "[''Portal'', ''Halo'']" example_catalog,
      THEN conjunct1, THEN mp, OF p, THEN conjunct1, THEN mp, OF lp]
  note th = C8_repeated_name [of "''Halo''" "[''Portal'', ''Halo'']" example_catalog,
      THEN conjunct1, THEN mp, OF h, THEN conjunct2, THEN conjunct2, THEN mp, OF fh]
  have v: "get_own (steamIDsSingleFullMatch
                 (findSteamAppIdsFullMatch ([''Portal'', ''Halo''] @ [''Portal''])
                    example_catalog)) ''Portal'' = Some 1"
    using tp [THEN conjunct2, THEN conjunct2, THEN conjunct2] by (simp add: fp)
  from p h lp fh v tp [THEN conjunct1] tp [THEN conjunct2, THEN conjunct2, THEN conjunct1]
    th [THEN conjunct2]
  show ?thesis
    by (simp only: simp_thms)
qed

section \<open>The rating function of the specification\<close>

lemma overlap_mset: "overlap xs ys = size (mset xs \<inter># mset ys)"
proof (induction xs arbitrary: ys)
  case Nil
  show ?case by simp
next
  case (Cons x xs)
  show ?case
  proof (cases "x \<in> set ys")
    case True
    then have "add_mset x (mset xs) \<inter># mset ys
                 = add_mset x (mset xs \<inter># (mset ys - {#x#}))"
      by (simp add: inter_add_left2)
    with True Cons show ?thesis by simp
  next
    case False
    then have "add_mset x (mset xs) \<inter># mset ys = mset xs \<inter># mset ys"
      by (simp add: inter_add_left1)
    with False Cons show ?thesis by simp
  qed
qed

lemma overlap_commute: "overlap xs ys = overlap ys xs"
  by (simp add: overlap_mset subset_mset.inf_commute)

lemma overlap_le_left: "overlap xs ys \<le> length xs"
proof -
  have "size (mset xs \<inter># mset ys) \<le> size (mset xs)"
    by (rule size_mset_mono) simp
  then show ?thesis by (simp add: overlap_mset)
qed

lemma overlap_le_right: "overlap xs ys \<le> length ys"
  using overlap_le_left [of ys xs] by (simp add: overlap_commute)

lemma overlap_self: "overlap xs xs = length xs"
  by (simp add: overlap_mset)

lemma length_bigrams: "length (bigrams s) = length s - 1"
  by (induction s rule: bigrams.induct) simp_all

lemma compareTwoStrings_formula:
  "2 \<le> length A \<Longrightarrow> 2 \<le> length B \<Longrightarrow>
   compareTwoStrings A B =
     2 * of_nat (size (mset (bigrams A) \<inter># mset (bigrams B)))
       / of_nat (size (mset (bigrams A)) + size (mset (bigrams B)))"
  by (simp add: compareTwoStrings_def overlap_mset)

lemma compareTwoStrings_self: "compareTwoStrings A A = 1"
proof (cases "length A < 2")
  case True
  then show ?thesis by (simp add: compareTwoStrings_def)
next
  case False
  then have "0 < length (bigrams A)"
    by (simp add: length_bigrams)
  then show ?thesis
    using False by (simp add: compareTwoStrings_def overlap_self)
qed

lemma compareTwoStrings_nonneg: "0 \<le> compareTwoStrings A B"
  by (simp add: compareTwoStrings_def)

lemma compareTwoStrings_le_one: "compareTwoStrings A B \<le> 1"
proof (cases "length A < 2 \<or> length B < 2")
  case True
  then show ?thesis by (simp add: compareTwoStrings_def)
next
  case False
  let ?n = "length (bigrams A)" and ?m = "length (bigrams B)"
  let ?o = "overlap (bigrams A) (bigrams B)"
  have pos: "0 < ?n + ?m"
    using False by (simp add: length_bigrams)
  have "2 * ?o \<le> ?n + ?m"
    using overlap_le_left [of "bigrams A" "bigrams B"]
          overlap_le_right [of "bigrams A" "bigrams B"] by arith
  then have "(2::rat) * of_nat ?o \<le> of_nat (?n + ?m)"
    by (metis of_nat_le_iff of_nat_mult of_nat_numeral)
  moreover have "(0::rat) < of_nat (?n + ?m)"
    using pos by (simp only: of_nat_0_less_iff)
  ultimately have "(2::rat) * of_nat ?o / of_nat (?n + ?m) \<le> 1"
    by (simp add: divide_le_eq)
  then show ?thesis
    using False by (simp add: compareTwoStrings_def)
qed

lemma compareTwoStrings_commute: "compareTwoStrings A B = compareTwoStrings B A"
  by (auto simp: compareTwoStrings_def overlap_commute add.commute)

text \<open>
  C7: the bigram-overlap rating satisfies, for all strings \<open>A\<close> and \<open>B\<close>: the rating of
  the lower-cased \<open>A\<close> against itself is 1, every rating lies between 0 and 1, and the
  rating of \<open>A\<close> against \<open>B\<close> is the rating of \<open>B\<close> against \<open>A\<close>.
\<close>

theorem C7_similarity_bounds_identity_symmetry:
  "compareTwoStrings (toLowerCase A) (toLowerCase A) = 1
   \<and> 0 \<le> compareTwoStrings A B
   \<and> compareTwoStrings A B \<le> 1
   \<and> compareTwoStrings A B = compareTwoStrings B A"
  using compareTwoStrings_self [of "toLowerCase A"] compareTwoStrings_nonneg [of A B]
    compareTwoStrings_le_one [of A B] compareTwoStrings_commute [of A B]
  by (simp only: simp_thms)

section \<open>The best match of the package\<close>

lemma scanBest_spec:
  "i = length pre \<Longrightarrow> bestMatchIndex b < length pre \<Longrightarrow>
   rating b = pre ! bestMatchIndex b \<Longrightarrow>
   (\<And>j. j < length pre \<Longrightarrow> pre ! j \<le> rating b) \<Longrightarrow>
   (\<And>j. j < bestMatchIndex b \<Longrightarrow> pre ! j < rating b) \<Longrightarrow>
   bestMatchIndex (scanBest rs i b) < length (pre @ rs)
   \<and> rating (scanBest rs i b) = (pre @ rs) ! bestMatchIndex (scanBest rs i b)
   \<and> (\<forall>j < length (pre @ rs). (pre @ rs) ! j \<le> rating (scanBest rs i b))
   \<and> (\<forall>j < bestMatchIndex (scanBest rs i b). (pre @ rs) ! j < rating (scanBest rs i b))"
proof (induction rs arbitrary: pre i b)
  case Nil
  then show ?case by simp
next
  case (Cons r rs)
  let ?b = "if rating b < r then \<lparr>rating = r, bestMatchIndex = i\<rparr> else b"
  have len: "Suc i = length (pre @ [r])"
    using Cons.prems(1) by simp
  have idx: "bestMatchIndex ?b < length (pre @ [r])"
    using Cons.prems(1,2) by simp
  have rat: "rating ?b = (pre @ [r]) ! bestMatchIndex ?b"
    using Cons.prems(1,2,3) by (simp add: nth_append)
  have ub: "(pre @ [r]) ! j \<le> rating ?b" if "j < length (pre @ [r])" for j
  proof (cases "j < length pre")
    case True
    then show ?thesis
      using Cons.prems(4) [of j] by (auto simp: nth_append)
  next
    case False
    with that have "j = length pre" by simp
    then show ?thesis by (auto simp: nth_append)
  qed
  have first: "(pre @ [r]) ! j < rating ?b" if "j < bestMatchIndex ?b" for j
  proof (cases "rating b < r")
    case True
    with that have "j < length pre"
      using Cons.prems(1) by simp
    then show ?thesis
      using True Cons.prems(4) [of j] by (auto simp: nth_append)
  next
    case False
    with that have "j < bestMatchIndex b" by simp
    then show ?thesis
      using False Cons.prems(2) Cons.prems(5) [of j] by (auto simp: nth_append)
  qed
  have "bestMatchIndex (scanBest rs (Suc i) ?b) < length ((pre @ [r]) @ rs)
   \<and> rating (scanBest rs (Suc i) ?b) = ((pre @ [r]) @ rs) ! bestMatchIndex (scanBest rs (Suc i) ?b)
   \<and> (\<forall>j < length ((pre @ [r]) @ rs). ((pre @ [r]) @ rs) ! j \<le> rating (scanBest rs (Suc i) ?b))
   \<and> (\<forall>j < bestMatchIndex (scanBest rs (Suc i) ?b).
          ((pre @ [r]) @ rs) ! j < rating (scanBest rs (Suc i) ?b))"
    using len idx rat ub first by (rule Cons.IH)
  moreover have "(pre @ [r]) @ rs = pre @ r # rs"
    by simp
  moreover have "scanBest (r # rs) i b = scanBest rs (Suc i) ?b"
    by simp
  ultimately show ?case
    by metis
qed

lemma findBestMatch_empty: "findBestMatch onEmpty cmp s [] = onEmpty s"
  by (simp add: findBestMatch_def)

lemma findBestMatch_spec:
  assumes "targets \<noteq> []"
  shows "\<exists>bm. findBestMatch onEmpty cmp s targets = Inr bm
           \<and> bestMatchIndex bm < length targets
           \<and> rating bm = cmp s (targets ! bestMatchIndex bm)
           \<and> (\<forall>j < length targets. cmp s (targets ! j) \<le> rating bm)
           \<and> (\<forall>j < bestMatchIndex bm. cmp s (targets ! j) < rating bm)"
proof -
  obtain t ts where t: "targets = t # ts"
    using assms by (cases targets) auto
  let ?b = "\<lparr>rating = cmp s t, bestMatchIndex = 0\<rparr>"
  let ?rs = "map (cmp s) ts"
  let ?bm = "scanBest ?rs 1 ?b"
  have sc: "bestMatchIndex ?bm < length ([cmp s t] @ ?rs)
   \<and> rating ?bm = ([cmp s t] @ ?rs) ! bestMatchIndex ?bm
   \<and> (\<forall>j < length ([cmp s t] @ ?rs). ([cmp s t] @ ?rs) ! j \<le> rating ?bm)
   \<and> (\<forall>j < bestMatchIndex ?bm. ([cmp s t] @ ?rs) ! j < rating ?bm)"
    by (rule scanBest_spec) simp_all
  have nth: "([cmp s t] @ ?rs) ! j = cmp s (targets ! j)" if "j < length targets" for j
    using that t by (cases j) simp_all
  have len: "length ([cmp s t] @ ?rs) = length targets"
    using t by simp
  have res: "findBestMatch onEmpty cmp s targets = Inr ?bm"
    using t by (simp add: findBestMatch_def)
  have i: "bestMatchIndex ?bm < length targets"
    using sc len by simp
  have r: "rating ?bm = cmp s (targets ! bestMatchIndex ?bm)"
    using sc nth [OF i] by simp
  have u: "\<forall>j < length targets. cmp s (targets ! j) \<le> rating ?bm"
    using sc len nth by metis
  have f: "\<forall>j < bestMatchIndex ?bm. cmp s (targets ! j) < rating ?bm"
  proof (intro allI impI)
    fix j assume j: "j < bestMatchIndex ?bm"
    then have "j < length targets" using i by simp
    then show "cmp s (targets ! j) < rating ?bm"
      using sc j nth [of j] by metis
  qed
  show ?thesis
    using res i r u f by blast
qed

section \<open>The similarity pass on a catalog with entries\<close>

lemma bestOf_nonempty:
  assumes "steamApps \<noteq> []"
  shows "findBestMatch onEmpty cmp (toLowerCase game)
             (map (\<lambda>a. toLowerCase (name a)) steamApps)
           = Inr (bestOf cmp steamApps game)
         \<and> bestMatchIndex (bestOf cmp steamApps game) < length steamApps"
proof -
  let ?sal = "map (\<lambda>a. toLowerCase (name a)) steamApps"
  obtain a as where a: "steamApps = a # as"
    using assms by (cases steamApps) auto
  have res: "findBestMatch onEmpty cmp (toLowerCase game) ?sal = Inr (bestOf cmp steamApps game)"
    using a by (simp add: findBestMatch_def bestOf_def)
  have "?sal \<noteq> []"
    using assms by simp
  from findBestMatch_spec [OF this, where onEmpty = onEmpty and cmp = cmp
      and s = "toLowerCase game"]
  have "bestMatchIndex (bestOf cmp steamApps game) < length steamApps"
    unfolding res by simp
  with res show ?thesis
    by simp
qed

lemma bestMatchStep_nonempty:
  assumes "steamApps \<noteq> []"
  shows "bestMatchStep onEmpty cmp thr steamApps (map (\<lambda>a. toLowerCase (name a)) steamApps) r
           game (toLowerCase game) = Inr (recordStep cmp thr steamApps r game)"
  using bestOf_nonempty [OF assms, where onEmpty = onEmpty and cmp = cmp and game = game]
  by (simp add: bestMatchStep_def recordStep_def entryOf_def)

lemma bestMatchLoop_nonempty:
  assumes "steamApps \<noteq> []"
  shows "list_all (\<lambda>i. i < length gameNames) idxs \<Longrightarrow>
     bestMatchLoop onEmpty cmp thr steamApps (map (\<lambda>a. toLowerCase (name a)) steamApps)
       gameNames (map toLowerCase gameNames) idxs r
     = Inr (foldl (recordStep cmp thr steamApps) r (map (\<lambda>i. gameNames ! i) idxs))"
proof (induction idxs arbitrary: r)
  case Nil
  show ?case by simp
next
  case (Cons i idxs)
  then show ?case
    using bestMatchStep_nonempty [OF assms, where onEmpty = onEmpty and cmp = cmp
        and thr = thr and r = r and game = "gameNames ! i"] by simp
qed

lemma bestMatchLoop_all:
  assumes "steamApps \<noteq> []"
  shows "bestMatchLoop onEmpty cmp thr steamApps (map (\<lambda>a. toLowerCase (name a)) steamApps)
       gameNames (map toLowerCase gameNames) [0..<length gameNames] r
     = Inr (foldl (recordStep cmp thr steamApps) r gameNames)"
proof -
  have "list_all (\<lambda>i. i < length gameNames) [0..<length gameNames]"
    by (simp add: list_all_iff)
  from bestMatchLoop_nonempty [OF assms this]
  show ?thesis
    by (simp add: map_nth)
qed

lemma findSteamAppIdsBestMatch_nonempty:
  assumes "steamApps \<noteq> []"
  shows "findSteamAppIdsBestMatch onEmpty cmp CONFIG gameNames steamApps =
     Inr ((foldl (recordStep cmp (thresholdOf CONFIG) steamApps)
             \<lparr>steamIDsBestMatch = [], steamIDsNoMatch = []\<rparr> gameNames)
          \<lparr>steamIDsBestMatch :=
             fromEntries (sortBySimilarity (entries (steamIDsBestMatch
               (foldl (recordStep cmp (thresholdOf CONFIG) steamApps)
                  \<lparr>steamIDsBestMatch = [], steamIDsNoMatch = []\<rparr> gameNames))))\<rparr>)"
  by (simp add: findSteamAppIdsBestMatch_def Let_def bestMatchLoop_all [OF assms])

text \<open>
  On an empty catalog the pass records no match. What it does with the first name is
  decided by the package: when \<^verbatim>\<open>findBestMatch\<close> throws on the empty list of targets, the
  pass throws that error; when it returns a rating that reaches the threshold, the
  lookup \<^verbatim>\<open>steamApps[bestMatchIndex]\<close> finds no entry and the pass throws a \<^verbatim>\<open>TypeError\<close>.
\<close>

lemma findSteamAppIdsBestMatch_empty_catalog:
  "(case onEmpty (toLowerCase g) of
      Inl e \<Rightarrow> True
    | Inr bm \<Rightarrow> thresholdOf CONFIG \<le> rating bm) \<Longrightarrow>
   findSteamAppIdsBestMatch onEmpty cmp CONFIG (g # gs) [] =
     (case onEmpty (toLowerCase g) of
        Inl e \<Rightarrow> Inl e
      | Inr bm \<Rightarrow> Inl TypeError)"
proof -
  assume h: "case onEmpty (toLowerCase g) of
      Inl e \<Rightarrow> True
    | Inr bm \<Rightarrow> thresholdOf CONFIG \<le> rating bm"
  have "[0..<length (map toLowerCase (g # gs))] = 0 # [1..<Suc (length gs)]"
    by (simp add: upt_rec)
  then show ?thesis
    using h
    by (auto simp: findSteamAppIdsBestMatch_def Let_def bestMatchStep_def findBestMatch_empty
          split: sum.splits)
qed

lemma noMatch_foldl:
  "steamIDsNoMatch (foldl (recordStep cmp thr steamApps) r gs) =
     steamIDsNoMatch r @ filter (\<lambda>g. rating (bestOf cmp steamApps g) < thr) gs"
  by (induction gs rule: rev_induct) (auto simp: recordStep_def)

lemma best_foldl:
  "get_own (steamIDsBestMatch (foldl (recordStep cmp thr steamApps) r gs)) g =
     (if g \<in> set gs \<and> g \<noteq> ''__proto__'' \<and> thr \<le> rating (bestOf cmp steamApps g)
      then Some (entryOf cmp steamApps g) else get_own (steamIDsBestMatch r) g)"
  by (induction gs rule: rev_induct) (auto simp: recordStep_def get_own_assign)

lemma distinct_foldl:
  "distinct (map fst (steamIDsBestMatch r)) \<Longrightarrow>
   distinct (map fst (steamIDsBestMatch (foldl (recordStep cmp thr steamApps) r gs)))"
  by (induction gs rule: rev_induct) (auto simp: recordStep_def distinct_assign)

section \<open>Sorting and rebuilding the mapping of similarity matches\<close>

lemma mset_insertDescending: "mset (insertDescending e xs) = add_mset e (mset xs)"
  by (induction xs) simp_all

lemma mset_foldl_insertDescending:
  "mset (foldl (\<lambda>acc e. insertDescending e acc) acc es) = mset acc + mset es"
  by (induction es arbitrary: acc) (simp_all add: mset_insertDescending)

lemma mset_sortBySimilarity: "mset (sortBySimilarity es) = mset es"
  by (simp add: sortBySimilarity_def mset_foldl_insertDescending)

lemma set_insertDescending: "set (insertDescending e xs) = insert e (set xs)"
  using mset_insertDescending [of e xs] by (metis set_mset_mset set_mset_add_mset_insert)

lemma descending_insertDescending:
  "descending xs \<Longrightarrow> descending (insertDescending e xs)"
  unfolding descending_def
  by (induction xs) (auto simp: set_insertDescending)

lemma descending_foldl:
  "descending acc \<Longrightarrow> descending (foldl (\<lambda>acc e. insertDescending e acc) acc es)"
  by (induction es arbitrary: acc) (simp_all add: descending_insertDescending)

lemma descending_Nil: "descending []"
  by (simp add: descending_def)

lemma descending_sortBySimilarity: "descending (sortBySimilarity es)"
  unfolding sortBySimilarity_def by (rule descending_foldl) (rule descending_Nil)

lemma filter_insertDescending:
  "descending xs \<Longrightarrow>
   filter (\<lambda>x. similarity (snd x) = s) (insertDescending e xs) =
     filter (\<lambda>x. similarity (snd x) = s) xs @ (if similarity (snd e) = s then [e] else [])"
proof (induction xs)
  case Nil
  show ?case by simp
next
  case (Cons x xs)
  then have d: "descending xs" and le: "\<forall>y \<in> set xs. similarity (snd y) \<le> similarity (snd x)"
    by (simp_all add: descending_def)
  show ?case
  proof (cases "similarity (snd x) < similarity (snd e)")
    case True
    then have "filter (\<lambda>y. similarity (snd y) = similarity (snd e)) (x # xs) = []"
      using le by (auto simp: filter_empty_conv)
    with True show ?thesis by auto
  next
    case False
    with Cons.IH [OF d] show ?thesis by simp
  qed
qed

lemma filter_foldl_insertDescending:
  "descending acc \<Longrightarrow>
   filter (\<lambda>x. similarity (snd x) = s) (foldl (\<lambda>acc e. insertDescending e acc) acc es) =
     filter (\<lambda>x. similarity (snd x) = s) acc @ filter (\<lambda>x. similarity (snd x) = s) es"
proof (induction es arbitrary: acc)
  case Nil
  show ?case by simp
next
  case (Cons e es)
  from Cons.IH [OF descending_insertDescending [OF Cons.prems], of e]
  show ?case
    by (simp add: filter_insertDescending [OF Cons.prems])
qed

lemma stable_sortBySimilarity:
  "filter (\<lambda>x. similarity (snd x) = s) (sortBySimilarity es) =
     filter (\<lambda>x. similarity (snd x) = s) es"
  using filter_foldl_insertDescending [OF descending_Nil, of s es]
  by (simp add: sortBySimilarity_def)

lemma define_own_fresh: "k \<notin> fst ` set obj \<Longrightarrow> define_own k v obj = obj @ [(k, v)]"
  by (induction obj) auto

lemma foldl_define_own_distinct:
  "distinct (map fst (acc @ es)) \<Longrightarrow>
   foldl (\<lambda>obj p. define_own (fst p) (snd p) obj) acc es = acc @ es"
proof (induction es arbitrary: acc)
  case Nil
  show ?case by simp
next
  case (Cons e es)
  have fresh: "fst e \<notin> fst ` set acc"
    using Cons.prems by auto
  have "distinct (map fst ((acc @ [e]) @ es))"
    using Cons.prems by simp
  from Cons.IH [OF this] show ?case
    by (simp add: define_own_fresh [OF fresh])
qed

lemma fromEntries_distinct: "distinct (map fst es) \<Longrightarrow> fromEntries es = es"
  using foldl_define_own_distinct [of "[]" es] by (simp add: fromEntries_def)

lemma distinct_sorted_entries:
  "distinct (map fst obj) \<Longrightarrow> distinct (map fst (sortBySimilarity (entries obj)))"
proof -
  assume d: "distinct (map fst obj)"
  have "mset (map fst (sortBySimilarity (entries obj))) = mset (map fst obj)"
    by (simp add: mset_sortBySimilarity mset_entries)
  then show ?thesis
    using d by (metis mset_eq_imp_distinct_iff)
qed

lemma sorted_object:
  "distinct (map fst obj) \<Longrightarrow>
   fromEntries (sortBySimilarity (entries obj)) = sortBySimilarity (entries obj)"
  by (simp add: fromEntries_distinct distinct_sorted_entries)

lemma get_own_sorted_object:
  assumes "distinct (map fst obj)"
  shows "get_own (fromEntries (sortBySimilarity (entries obj))) k = get_own obj k"
proof -
  have "set (sortBySimilarity (entries obj)) = set obj"
    by (metis mset_sortBySimilarity mset_entries set_mset_mset)
  then have "map_of (sortBySimilarity (entries obj)) = map_of obj"
    using assms distinct_sorted_entries [OF assms] by (simp add: map_of_inject_set)
  then show ?thesis
    by (simp add: get_own_def sorted_object [OF assms])
qed

lemma similarity_pass_records:
  assumes "steamApps \<noteq> []"
  shows "\<exists>r. findSteamAppIdsBestMatch onEmpty cmp CONFIG gameNames steamApps = Inr r
     \<and> steamIDsNoMatch r =
         filter (\<lambda>g. rating (bestOf cmp steamApps g) < thresholdOf CONFIG) gameNames
     \<and> (\<forall>g. get_own (steamIDsBestMatch r) g =
           (if g \<in> set gameNames \<and> g \<noteq> ''__proto__''
                 \<and> thresholdOf CONFIG \<le> rating (bestOf cmp steamApps g)
            then Some (entryOf cmp steamApps g) else None))
     \<and> distinct (map fst (steamIDsBestMatch r))"
proof -
  let ?r0 = "\<lparr>steamIDsBestMatch = [], steamIDsNoMatch = []\<rparr>"
  let ?l = "foldl (recordStep cmp (thresholdOf CONFIG) steamApps) ?r0 gameNames"
  let ?r = "?l\<lparr>steamIDsBestMatch :=
                 fromEntries (sortBySimilarity (entries (steamIDsBestMatch ?l)))\<rparr>"
  have res: "findSteamAppIdsBestMatch onEmpty cmp CONFIG gameNames steamApps = Inr ?r"
    by (rule findSteamAppIdsBestMatch_nonempty [OF assms])
  have d: "distinct (map fst (steamIDsBestMatch ?l))"
    by (rule distinct_foldl) simp
  have no: "steamIDsNoMatch ?r =
         filter (\<lambda>g. rating (bestOf cmp steamApps g) < thresholdOf CONFIG) gameNames"
    by (simp add: noMatch_foldl)
  have get: "get_own (steamIDsBestMatch ?r) g =
           (if g \<in> set gameNames \<and> g \<noteq> ''__proto__''
                 \<and> thresholdOf CONFIG \<le> rating (bestOf cmp steamApps g)
            then Some (entryOf cmp steamApps g) else None)" for g
    by (simp add: get_own_sorted_object [OF d] best_foldl) (simp add: get_own_def)
  have d': "distinct (map fst (steamIDsBestMatch ?r))"
    using distinct_sorted_entries [OF d] by (simp add: sorted_object [OF d])
  show ?thesis
    using res no get d' by blast
qed

section \<open>Claims about the pipeline\<close>

lemma remaining_empty_catalog:
  "remainingGameNames (findSteamAppIdsFullMatch gameNames []) = gameNames"
  by (simp add: remaining_fullMatch fullMatches_def)

text \<open>
  C5: with \<open>onlyFullMatches\<close> set, the run writes at most the two files of the
  exact-match pass, and neither the file of similarity matches nor the file of unmatched
  names; nothing is thrown, and the run is the same for every rating function (no
  rating enters the result), whatever names the exact-match pass leaves over.
\<close>

theorem C5_only_full_matches_stops:
  "onlyFullMatches CONFIG \<Longrightarrow>
     bestMatchFile (main onEmpty cmp CONFIG steamApps gameNames) = None
   \<and> noMatchFile (main onEmpty cmp CONFIG steamApps gameNames) = None
   \<and> thrown (main onEmpty cmp CONFIG steamApps gameNames) = None
   \<and> fullMatchesFile (main onEmpty cmp CONFIG steamApps gameNames) =
       (if keys (steamIDsSingleFullMatch (findSteamAppIdsFullMatch gameNames steamApps)) = []
        then None
        else Some (entries (steamIDsSingleFullMatch
                     (findSteamAppIdsFullMatch gameNames steamApps))))
   \<and> multipleFullMatchesFile (main onEmpty cmp CONFIG steamApps gameNames) =
       (if keys (steamIDsMultipleFullMatches (findSteamAppIdsFullMatch gameNames steamApps)) = []
        then None
        else Some (entries (steamIDsMultipleFullMatches
                     (findSteamAppIdsFullMatch gameNames steamApps))))
   \<and> main onEmpty cmp CONFIG steamApps gameNames = main onEmpty' cmp' CONFIG steamApps gameNames"
  by (simp add: main_def Let_def)

theorem C5_only_full_matches_stops_witness:
  "onlyFullMatches only_full_config
   \<and> remainingGameNames (findSteamAppIdsFullMatch example_names example_catalog)
       = [''portal 2'', ''Halo'']
   \<and> bestMatchFile (main throwing compareTwoStrings only_full_config example_catalog example_names) = None
   \<and> noMatchFile (main throwing compareTwoStrings only_full_config example_catalog example_names) = None
   \<and> thrown (main throwing compareTwoStrings only_full_config example_catalog example_names) = None
   \<and> fullMatchesFile (main throwing compareTwoStrings only_full_config example_catalog example_names)
       = Some [(''Portal'', 1)]"
proof -
  have a: "onlyFullMatches only_full_config"
    by (simp add: only_full_config_def)
  note h = C5_only_full_matches_stops
    [OF a, where onEmpty = throwing and cmp = compareTwoStrings
      and steamApps = example_catalog and gameNames = example_names]
  have r: "findSteamAppIdsFullMatch example_names example_catalog
     = \<lparr>steamIDsSingleFullMatch = [(''Portal'', 1)], steamIDsMultipleFullMatches = [],
        remainingGameNames = [''portal 2'', ''Halo'']\<rparr>"
    by (simp add: js_eval example_names_def example_catalog_def)
  have e: "entries [(''Portal'', 1::int)] = [(''Portal'', 1)]"
    by (simp add: js_eval)
  have k: "keys [(''Portal'', 1::int)] = [''Portal'']"
    by (simp add: keys_def e)
  from a h show ?thesis
    by (simp add: r e k)
qed

section \<open>Claims about the similarity pass\<close>

text \<open>
  C3: the pass accepts the best match of a name exactly when its rating is at least the
  threshold, routes the name to the unmatched list otherwise, and records an accepted
  name with the identifier, the rating and the original name of the matched entry. On
  a catalog with entries the pass does so for every name but \<open>__proto__\<close>
  (\<open>similarity_pass_records\<close>). For the query name \<open>__proto__\<close>, the example catalog and
  no threshold, the rating 0 is accepted, and the assignment
  \<^verbatim>\<open>steamIDsBestMatch["__proto__"] = {...}\<close> replaces the prototype of the mapping and
  creates no key: the name is neither recorded nor in the unmatched list.
\<close>

theorem C3_proto_name_accepted_not_recorded:
  "thresholdOf default_config \<le> rating (bestOf compareTwoStrings example_catalog ''__proto__'')
   \<and> findSteamAppIdsBestMatch onEmpty compareTwoStrings default_config [''__proto__''] example_catalog
       = Inr \<lparr>steamIDsBestMatch = [], steamIDsNoMatch = []\<rparr>
   \<and> main onEmpty compareTwoStrings default_config example_catalog [''__proto__'']
       = \<lparr>fullMatchesFile = None, multipleFullMatchesFile = None, bestMatchFile = Some [],
          noMatchFile = None, thrown = None\<rparr>"
  by (simp add: js_eval bestOf_def default_config_def example_catalog_def)

lemma bestOf_rating_one:
  assumes "a \<in> set steamApps" and "toLowerCase game = toLowerCase (name a)"
  shows "rating (bestOf compareTwoStrings steamApps game) = 1"
proof -
  let ?sal = "map (\<lambda>a. toLowerCase (name a)) steamApps"
  let ?bm = "bestOf compareTwoStrings steamApps game"
  have sne: "steamApps \<noteq> []"
    using assms(1) by auto
  have ne: "?sal \<noteq> []"
    using assms(1) by auto
  obtain j where j: "j < length steamApps" "steamApps ! j = a"
    using assms(1) by (auto simp: in_set_conv_nth)
  have res: "findBestMatch throwing compareTwoStrings (toLowerCase game) ?sal = Inr ?bm"
    using bestOf_nonempty [OF sne, where onEmpty = throwing and cmp = compareTwoStrings
        and game = game] by simp
  from findBestMatch_spec [OF ne, where onEmpty = throwing and cmp = compareTwoStrings
      and s = "toLowerCase game"]
  obtain bm where bm: "findBestMatch throwing compareTwoStrings (toLowerCase game) ?sal = Inr bm"
    and r0: "rating bm = compareTwoStrings (toLowerCase game) (?sal ! bestMatchIndex bm)"
    and u0: "\<forall>j < length ?sal. compareTwoStrings (toLowerCase game) (?sal ! j) \<le> rating bm"
    by blast
  have eq: "bm = ?bm"
    using bm res by simp
  have r: "rating ?bm = compareTwoStrings (toLowerCase game) (?sal ! bestMatchIndex ?bm)"
    and u: "\<forall>j < length ?sal. compareTwoStrings (toLowerCase game) (?sal ! j) \<le> rating ?bm"
    using r0 u0 unfolding eq by blast+
  have "compareTwoStrings (toLowerCase game) (?sal ! j) = 1"
    using j assms(2) by (simp add: compareTwoStrings_self)
  then have "1 \<le> rating ?bm"
    using u j by (metis length_map)
  moreover have "rating ?bm \<le> 1"
    unfolding r by (rule compareTwoStrings_le_one)
  ultimately show ?thesis
    by simp
qed

text \<open>
  C6: a query name and the name of a catalog entry that differ only in letter case
  (different strings with the same lower-cased form) are no exact match, and the
  similarity pass rates them 1; in one run, when no entry has exactly the query name,
  the name is left over by the exact-match pass, its best rating is 1, and with a
  threshold of at most 1 it is written to the file of similarity matches with the
  similarity 1 (for a name other than \<open>__proto__\<close>).
\<close>

theorem C6_case_difference:
  "a \<in> set steamApps \<Longrightarrow> game \<noteq> name a \<Longrightarrow> toLowerCase game = toLowerCase (name a) \<Longrightarrow>
     a \<notin> set (fullMatches steamApps game)
   \<and> compareTwoStrings (toLowerCase game) (toLowerCase (name a)) = 1
   \<and> rating (bestOf compareTwoStrings steamApps game) = 1
   \<and> (game \<in> set gameNames \<and> fullMatches steamApps game = [] \<longrightarrow>
        game \<in> set (remainingGameNames (findSteamAppIdsFullMatch gameNames steamApps))
        \<and> (\<not> onlyFullMatches CONFIG \<and> thresholdOf CONFIG \<le> 1 \<and> game \<noteq> ''__proto__'' \<longrightarrow>
             (\<exists>es. bestMatchFile (main onEmpty compareTwoStrings CONFIG steamApps gameNames) = Some es
                   \<and> (game, entryOf compareTwoStrings steamApps game) \<in> set es
                   \<and> similarity (entryOf compareTwoStrings steamApps game) = 1)))"
proof -
  assume a: "a \<in> set steamApps" and ne: "game \<noteq> name a"
    and low: "toLowerCase game = toLowerCase (name a)"
  have c1: "a \<notin> set (fullMatches steamApps game)"
    using ne by (auto simp: fullMatches_def)
  have c2: "compareTwoStrings (toLowerCase game) (toLowerCase (name a)) = 1"
    by (simp add: low compareTwoStrings_self)
  have c3: "rating (bestOf compareTwoStrings steamApps game) = 1"
    by (rule bestOf_rating_one [OF a low])
  have c4: "game \<in> set (remainingGameNames (findSteamAppIdsFullMatch gameNames steamApps))"
    if "game \<in> set gameNames \<and> fullMatches steamApps game = []"
    using that by (simp add: remaining_fullMatch)
  have c5: "\<exists>es. bestMatchFile (main onEmpty compareTwoStrings CONFIG steamApps gameNames) = Some es
                   \<and> (game, entryOf compareTwoStrings steamApps game) \<in> set es
                   \<and> similarity (entryOf compareTwoStrings steamApps game) = 1"
    if g: "game \<in> set gameNames \<and> fullMatches steamApps game = []"
      and cfg: "\<not> onlyFullMatches CONFIG \<and> thresholdOf CONFIG \<le> 1 \<and> game \<noteq> ''__proto__''"
  proof -
    let ?rest = "remainingGameNames (findSteamAppIdsFullMatch gameNames steamApps)"
    have sne: "steamApps \<noteq> []"
      using a by auto
    from similarity_pass_records [OF sne, where onEmpty = onEmpty and cmp = compareTwoStrings
        and CONFIG = CONFIG and gameNames = ?rest]
    obtain r where r: "findSteamAppIdsBestMatch onEmpty compareTwoStrings CONFIG ?rest steamApps = Inr r"
      and get: "\<forall>g. get_own (steamIDsBestMatch r) g =
           (if g \<in> set ?rest \<and> g \<noteq> ''__proto__''
                 \<and> thresholdOf CONFIG \<le> rating (bestOf compareTwoStrings steamApps g)
            then Some (entryOf compareTwoStrings steamApps g) else None)"
      by blast
    have "get_own (steamIDsBestMatch r) game = Some (entryOf compareTwoStrings steamApps game)"
      using get c4 [OF g] cfg c3 by simp
    then have "(game, entryOf compareTwoStrings steamApps game) \<in> set (steamIDsBestMatch r)"
      by (simp add: get_own_def map_of_SomeD)
    then have "(game, entryOf compareTwoStrings steamApps game)
                 \<in> set (entries (steamIDsBestMatch r))"
      by (simp add: set_entries)
    moreover have "bestMatchFile (main onEmpty compareTwoStrings CONFIG steamApps gameNames)
                     = Some (entries (steamIDsBestMatch r))"
      using cfg r by (simp add: main_def Let_def)
    moreover have "similarity (entryOf compareTwoStrings steamApps game) = 1"
      using c3 by (simp add: entryOf_def)
    ultimately show ?thesis
      by blast
  qed
  show ?thesis
    using c1 c2 c3 c4 c5 by blast
qed

theorem C6_case_difference_witness:
  "\<lparr>appid = 2, name = ''Portal 2''\<rparr> \<in> set example_catalog
   \<and> ''portal 2'' \<noteq> ''Portal 2''
   \<and> toLowerCase ''portal 2'' = toLowerCase ''Portal 2''
   \<and> fullMatches example_catalog ''portal 2'' = []
   \<and> rating (bestOf compareTwoStrings example_catalog ''portal 2'') = 1
   \<and> ''portal 2'' \<in> set (remainingGameNames
                            (findSteamAppIdsFullMatch example_names example_catalog))
   \<and> (\<exists>es. bestMatchFile (main throwing compareTwoStrings half_config example_catalog example_names)
              = Some es
            \<and> (''portal 2'', entryOf compareTwoStrings example_catalog ''portal 2'') \<in> set es
            \<and> similarity (entryOf compareTwoStrings example_catalog ''portal 2'') = 1)"
proof -
  have a: "\<lparr>appid = 2, name = ''Portal 2''\<rparr> \<in> set example_catalog"
    by (simp add: example_catalog_def)
  have b: "''portal 2'' \<noteq> name \<lparr>appid = 2, name = ''Portal 2''\<rparr>"
    by simp
  have c: "toLowerCase ''portal 2'' = toLowerCase (name \<lparr>appid = 2, name = ''Portal 2''\<rparr>)"
    by (simp add: toLowerCase_def toLowerCase_unit_def char_of_def bit_Suc_0_iff)
  have d: "''portal 2'' \<in> set example_names \<and> fullMatches example_catalog ''portal 2'' = []"
    by (simp add: example_names_def example_catalog_def fullMatches_def)
  have e: "\<not> onlyFullMatches half_config \<and> thresholdOf half_config \<le> 1
             \<and> ''portal 2'' \<noteq> ''__proto__''"
    by (simp add: half_config_def thresholdOf_def)
  note h = C6_case_difference [OF a b c, where gameNames = example_names
      and CONFIG = half_config and onEmpty = throwing]
  note h4 = h [THEN conjunct2, THEN conjunct2, THEN conjunct2, THEN mp, OF d]
  from a b c d h [THEN conjunct2, THEN conjunct2, THEN conjunct1]
    h4 [THEN conjunct1] h4 [THEN conjunct2, THEN mp, OF e]
  show ?thesis
    by simp
qed

lemma foldl_recordStep_distinct:
  "distinct gs \<Longrightarrow>
   steamIDsBestMatch (foldl (recordStep cmp thr steamApps)
       \<lparr>steamIDsBestMatch = [], steamIDsNoMatch = []\<rparr> gs)
     = map (\<lambda>g. (g, entryOf cmp steamApps g))
         (filter (\<lambda>g. g \<noteq> ''__proto__'' \<and> thr \<le> rating (bestOf cmp steamApps g)) gs)"
proof (induction gs rule: rev_induct)
  case Nil
  show ?case by simp
next
  case (snoc g gs)
  define l where "l = foldl (recordStep cmp thr steamApps)
       \<lparr>steamIDsBestMatch = [], steamIDsNoMatch = []\<rparr> gs"
  have step: "foldl (recordStep cmp thr steamApps)
       \<lparr>steamIDsBestMatch = [], steamIDsNoMatch = []\<rparr> (gs @ [g])
       = recordStep cmp thr steamApps l g"
    by (simp add: l_def)
  have obj: "steamIDsBestMatch l = map (\<lambda>g. (g, entryOf cmp steamApps g))
         (filter (\<lambda>g. g \<noteq> ''__proto__'' \<and> thr \<le> rating (bestOf cmp steamApps g)) gs)"
    using snoc by (simp add: l_def)
  have "g \<notin> set gs"
    using snoc.prems by simp
  then have fresh: "g \<notin> fst ` set (steamIDsBestMatch l)"
    unfolding obj by auto
  have "steamIDsBestMatch (recordStep cmp thr steamApps l g)
          = (if g \<noteq> ''__proto__'' \<and> thr \<le> rating (bestOf cmp steamApps g)
             then steamIDsBestMatch l @ [(g, entryOf cmp steamApps g)]
             else steamIDsBestMatch l)"
    by (simp add: recordStep_def assign_def define_own_fresh [OF fresh])
  then show ?case
    unfolding step by (simp add: obj)
qed

lemma entries_sorted_no_index:
  assumes "distinct (map fst obj)" and "list_all (\<lambda>p. \<not> is_array_index (fst p)) obj"
  shows "entries (fromEntries (sortBySimilarity (entries obj))) = sortBySimilarity obj"
proof -
  have e: "entries obj = obj"
    by (rule entries_no_index [OF assms(2)])
  have "set (sortBySimilarity obj) = set obj"
    by (metis mset_sortBySimilarity set_mset_mset)
  then have "list_all (\<lambda>p. \<not> is_array_index (fst p)) (sortBySimilarity obj)"
    using assms(2) by (simp add: list_all_iff)
  then have "entries (sortBySimilarity obj) = sortBySimilarity obj"
    by (rule entries_no_index)
  then show ?thesis
    using sorted_object [OF assms(1)] by (simp add: e)
qed

lemma similarity_matches_sorted_without_index_names:
  assumes "steamApps \<noteq> []" and "distinct gameNames"
    and "list_all (\<lambda>g. \<not> is_array_index g) gameNames"
  shows "\<exists>r. findSteamAppIdsBestMatch onEmpty cmp CONFIG gameNames steamApps = Inr r
     \<and> descending (entries (steamIDsBestMatch r))
     \<and> (\<forall>s. map fst (filter (\<lambda>e. similarity (snd e) = s) (entries (steamIDsBestMatch r)))
            = filter (\<lambda>g. g \<noteq> ''__proto__''
                         \<and> thresholdOf CONFIG \<le> rating (bestOf cmp steamApps g)
                         \<and> rating (bestOf cmp steamApps g) = s) gameNames)"
proof -
  let ?r0 = "\<lparr>steamIDsBestMatch = [], steamIDsNoMatch = []\<rparr>"
  let ?l = "foldl (recordStep cmp (thresholdOf CONFIG) steamApps) ?r0 gameNames"
  let ?obj = "steamIDsBestMatch ?l"
  let ?r = "?l\<lparr>steamIDsBestMatch := fromEntries (sortBySimilarity (entries ?obj))\<rparr>"
  let ?acc = "\<lambda>g. g \<noteq> ''__proto__'' \<and> thresholdOf CONFIG \<le> rating (bestOf cmp steamApps g)"
  have res: "findSteamAppIdsBestMatch onEmpty cmp CONFIG gameNames steamApps = Inr ?r"
    by (rule findSteamAppIdsBestMatch_nonempty [OF assms(1)])
  have obj: "?obj = map (\<lambda>g. (g, entryOf cmp steamApps g)) (filter ?acc gameNames)"
    by (rule foldl_recordStep_distinct [OF assms(2)])
  have d: "distinct (map fst ?obj)"
    unfolding obj using assms(2) by (simp add: comp_def)
  have ni: "list_all (\<lambda>p. \<not> is_array_index (fst p)) ?obj"
    unfolding obj using assms(3) by (simp add: list_all_iff)
  have e: "entries (steamIDsBestMatch ?r) = sortBySimilarity ?obj"
    using entries_sorted_no_index [OF d ni] by simp
  have desc: "descending (entries (steamIDsBestMatch ?r))"
    unfolding e by (rule descending_sortBySimilarity)
  have stab: "map fst (filter (\<lambda>e. similarity (snd e) = s) (entries (steamIDsBestMatch ?r)))
            = filter (\<lambda>g. g \<noteq> ''__proto__''
                         \<and> thresholdOf CONFIG \<le> rating (bestOf cmp steamApps g)
                         \<and> rating (bestOf cmp steamApps g) = s) gameNames" for s
  proof -
    have "filter (\<lambda>e. similarity (snd e) = s) (entries (steamIDsBestMatch ?r))
            = filter (\<lambda>e. similarity (snd e) = s) ?obj"
      unfolding e by (rule stable_sortBySimilarity)
    moreover have "map fst (filter (\<lambda>e. similarity (snd e) = s) ?obj)
            = filter (\<lambda>g. g \<noteq> ''__proto__''
                         \<and> thresholdOf CONFIG \<le> rating (bestOf cmp steamApps g)
                         \<and> rating (bestOf cmp steamApps g) = s) gameNames"
      unfolding obj
      by (simp add: filter_map comp_def entryOf_def conj_assoc)
    ultimately show ?thesis
      by (simp only:)
  qed
  show ?thesis
    by (rule exI [of _ ?r]) (intro conjI allI res desc stab)
qed

text \<open>
  C2: the mapping of similarity matches comes back ordered by descending similarity, and
  entries with equal similarity keep the order in which their names were processed. The
  pass sorts the entries so (\<open>similarity_matches_sorted_without_index_names\<close>), and then
  builds the mapping again with \<^verbatim>\<open>Object.fromEntries\<close>; an object lists its array-index
  keys first, in numeric order, so a name such as \<open>7\<close> leaves the sorted order. With the
  example catalog and no threshold, the names \<open>[portal 2, 7]\<close> come back as \<open>7\<close> (similarity
  0) before \<open>portal 2\<close> (similarity 1), and the names \<open>[b, 10, 9]\<close>, all of similarity 0,
  come back as \<open>9, 10, b\<close>.
\<close>

theorem C2_index_names_leave_sorted_order:
  "bestMatchFile (main onEmpty compareTwoStrings default_config example_catalog [''portal 2'', ''7''])
     = Some [(''7'', \<lparr>appId = 1, similarity = 0, steamName = ''Portal''\<rparr>),
             (''portal 2'', \<lparr>appId = 2, similarity = 1, steamName = ''Portal 2''\<rparr>)]
   \<and> \<not> descending [(''7'', \<lparr>appId = 1, similarity = 0, steamName = ''Portal''\<rparr>),
             (''portal 2'', \<lparr>appId = 2, similarity = 1, steamName = ''Portal 2''\<rparr>)]
   \<and> bestMatchFile (main onEmpty compareTwoStrings default_config example_catalog [''b'', ''10'', ''9''])
     = Some [(''9'', \<lparr>appId = 1, similarity = 0, steamName = ''Portal''\<rparr>),
             (''10'', \<lparr>appId = 1, similarity = 0, steamName = ''Portal''\<rparr>),
             (''b'', \<lparr>appId = 1, similarity = 0, steamName = ''Portal''\<rparr>)]"
  by (simp add: js_eval descending_def default_config_def example_catalog_def)

section \<open>What the passes write\<close>

lemma alloc_frame:
  "alloc c h = (r, h') \<Longrightarrow>
     r = fresh h \<and> fresh h' = Suc (fresh h) \<and> cells h' r = Some c
     \<and> (\<forall>a. a \<noteq> fresh h \<longrightarrow> cells h' a = cells h a)"
  by (auto simp: alloc_def)

lemma put_frame:
  "fresh (put a c h) = fresh h \<and> cells (put a c h) a = Some c
   \<and> (\<forall>b. b \<noteq> a \<longrightarrow> cells (put a c h) b = cells h b)"
  by (simp add: put_def)

lemma fullMatchStep_store_frame:
  "a \<noteq> single \<Longrightarrow> a \<noteq> multiple \<Longrightarrow> a \<noteq> remaining \<Longrightarrow>
   cells (fullMatchStep_store steamApps single multiple remaining h game) a = cells h a"
  by (simp add: fullMatchStep_store_def Let_def put_def)

lemma fullMatchLoop_store_frame:
  "a \<noteq> single \<Longrightarrow> a \<noteq> multiple \<Longrightarrow> a \<noteq> remaining \<Longrightarrow>
   cells (fullMatchLoop_store steamApps single multiple remaining gs h) a = cells h a"
  by (induction gs arbitrary: h) (simp_all add: fullMatchStep_store_frame)

lemma findSteamAppIdsFullMatch_store_frame:
  assumes "a < fresh h"
  shows "cells (snd (findSteamAppIdsFullMatch_store gameNames steamApps h)) a = cells h a"
  using assms
  by (simp add: findSteamAppIdsFullMatch_store_def alloc_def Let_def fullMatchLoop_store_frame)

lemma bestMatchStep_store_frame:
  "bestMatchStep_store onEmpty cmp thr steamApps sal best noMatch h game gl = Inr h' \<Longrightarrow>
   a \<noteq> best \<Longrightarrow> a \<noteq> noMatch \<Longrightarrow> cells h' a = cells h a"
  by (auto simp: bestMatchStep_store_def put_def split: sum.splits if_splits)

lemma bestMatchLoop_store_frame:
  "a \<noteq> best \<Longrightarrow> a \<noteq> noMatch \<Longrightarrow>
   cells (snd (bestMatchLoop_store onEmpty cmp thr steamApps sal gn gnl best noMatch idxs h)) a
     = cells h a"
proof (induction idxs arbitrary: h)
  case Nil
  show ?case by simp
next
  case (Cons i idxs)
  show ?case
  proof (cases "bestMatchStep_store onEmpty cmp thr steamApps sal best noMatch h
                  (names_at h gn ! i) (names_at h gnl ! i)")
    case (Inl e)
    then show ?thesis by simp
  next
    case (Inr h')
    then show ?thesis
      using Cons.IH [OF Cons.prems, of h'] bestMatchStep_store_frame [OF Inr Cons.prems]
      by simp
  qed
qed

lemma bestMatchStep_store_fresh:
  "bestMatchStep_store onEmpty cmp thr steamApps sal best noMatch h game gl = Inr h' \<Longrightarrow>
   fresh h' = fresh h"
  by (auto simp: bestMatchStep_store_def put_def split: sum.splits if_splits)

lemma bestMatchLoop_store_fresh:
  "fresh (snd (bestMatchLoop_store onEmpty cmp thr steamApps sal gn gnl best noMatch idxs h)) = fresh h"
proof (induction idxs arbitrary: h)
  case Nil
  show ?case by simp
next
  case (Cons i idxs)
  show ?case
  proof (cases "bestMatchStep_store onEmpty cmp thr steamApps sal best noMatch h
                  (names_at h gn ! i) (names_at h gnl ! i)")
    case (Inl e)
    then show ?thesis by simp
  next
    case (Inr h')
    then show ?thesis
      using Cons.IH [of h'] bestMatchStep_store_fresh [OF Inr] by simp
  qed
qed

lemma findSteamAppIdsBestMatch_store_frame:
  assumes "a < fresh h"
  shows "cells (snd (findSteamAppIdsBestMatch_store onEmpty cmp CONFIG gameNames steamApps h)) a
           = cells h a"
proof -
  obtain sal h1 where 1: "alloc (NameArray (map (\<lambda>a. toLowerCase (name a)) (apps_at h steamApps))) h
                           = (sal, h1)"
    by (simp add: alloc_def)
  obtain gnl h2 where 2: "alloc (NameArray (map toLowerCase (names_at h1 gameNames))) h1 = (gnl, h2)"
    by (simp add: alloc_def)
  obtain best h3 where 3: "alloc (MatchObject []) h2 = (best, h3)"
    by (simp add: alloc_def)
  obtain noMatch h4 where 4: "alloc (NameArray []) h3 = (noMatch, h4)"
    by (simp add: alloc_def)
  obtain err h5 where 5: "bestMatchLoop_store onEmpty cmp (thresholdOf CONFIG) steamApps sal
                gameNames gnl best noMatch [0..<length (names_at h4 gnl)] h4 = (err, h5)"
    by (cases "bestMatchLoop_store onEmpty cmp (thresholdOf CONFIG) steamApps sal
                gameNames gnl best noMatch [0..<length (names_at h4 gnl)] h4") simp
  have f: "fresh h4 = Suc (Suc (Suc (Suc (fresh h))))"
    "best = Suc (Suc (fresh h))" "noMatch = Suc (Suc (Suc (fresh h)))"
    using 1 2 3 4 by (auto simp: alloc_def)
  have c4: "cells h4 a = cells h a"
    using assms 1 2 3 4 by (auto simp: alloc_def)
  have "cells h5 a = cells h4 a"
    using bestMatchLoop_store_frame [of a best noMatch onEmpty cmp "thresholdOf CONFIG" steamApps sal
            gameNames gnl "[0..<length (names_at h4 gnl)]" h4] assms f 5
    by simp
  then have c5: "cells h5 a = cells h a"
    using c4 by simp
  have f5: "a < fresh h5"
    using bestMatchLoop_store_fresh [of onEmpty cmp "thresholdOf CONFIG" steamApps sal
            gameNames gnl best noMatch "[0..<length (names_at h4 gnl)]" h4] assms f 5
    by simp
  show ?thesis
  proof (cases err)
    case (Some e)
    then show ?thesis
      using 1 2 3 4 5 c5 by (simp add: findSteamAppIdsBestMatch_store_def Let_def)
  next
    case None
    then show ?thesis
      using 1 2 3 4 5 c5 f5
      by (simp add: findSteamAppIdsBestMatch_store_def Let_def)
         (simp add: alloc_def put_def)
  qed
qed

lemma fullMatchStep_store_refines:
  assumes "steamApps \<noteq> single" "steamApps \<noteq> multiple" "steamApps \<noteq> remaining"
    and "single \<noteq> multiple" "single \<noteq> remaining" "multiple \<noteq> remaining"
  shows "\<lparr>steamIDsSingleFullMatch =
            ids_at (fullMatchStep_store steamApps single multiple remaining h game) single,
          steamIDsMultipleFullMatches =
            idlists_at (fullMatchStep_store steamApps single multiple remaining h game) multiple,
          remainingGameNames =
            names_at (fullMatchStep_store steamApps single multiple remaining h game) remaining\<rparr>
         = fullMatchStep (apps_at h steamApps)
             \<lparr>steamIDsSingleFullMatch = ids_at h single,
              steamIDsMultipleFullMatches = idlists_at h multiple,
              remainingGameNames = names_at h remaining\<rparr> game"
  using assms
  by (simp add: fullMatchStep_store_def fullMatchStep_def Let_def put_def
        ids_at_def idlists_at_def names_at_def)

lemma fullMatchLoop_store_refines:
  assumes "steamApps \<noteq> single" "steamApps \<noteq> multiple" "steamApps \<noteq> remaining"
    and "single \<noteq> multiple" "single \<noteq> remaining" "multiple \<noteq> remaining"
  shows "\<lparr>steamIDsSingleFullMatch =
            ids_at (fullMatchLoop_store steamApps single multiple remaining gs h) single,
          steamIDsMultipleFullMatches =
            idlists_at (fullMatchLoop_store steamApps single multiple remaining gs h) multiple,
          remainingGameNames =
            names_at (fullMatchLoop_store steamApps single multiple remaining gs h) remaining\<rparr>
         = fullMatchLoop (apps_at h steamApps) gs
             \<lparr>steamIDsSingleFullMatch = ids_at h single,
              steamIDsMultipleFullMatches = idlists_at h multiple,
              remainingGameNames = names_at h remaining\<rparr>"
proof (induction gs arbitrary: h)
  case Nil
  show ?case by simp
next
  case (Cons g gs)
  have "apps_at (fullMatchStep_store steamApps single multiple remaining h g) steamApps
          = apps_at h steamApps"
    using assms(1-3) by (simp add: apps_at_def fullMatchStep_store_frame)
  then show ?case
    using Cons [of "fullMatchStep_store steamApps single multiple remaining h g"]
    by (simp add: fullMatchStep_store_refines [OF assms])
qed

lemma findSteamAppIdsFullMatch_store_refines:
  assumes "steamApps < fresh h" and "gameNames < fresh h"
    and "findSteamAppIdsFullMatch_store gameNames steamApps h = ((single, multiple, remaining), h')"
  shows "\<lparr>steamIDsSingleFullMatch = ids_at h' single,
          steamIDsMultipleFullMatches = idlists_at h' multiple,
          remainingGameNames = names_at h' remaining\<rparr>
         = findSteamAppIdsFullMatch (names_at h gameNames) (apps_at h steamApps)"
proof -
  define h3 where "h3 = \<lparr>cells = (cells h)(fresh h \<mapsto> IdObject [],
                      Suc (fresh h) \<mapsto> IdsObject [], Suc (Suc (fresh h)) \<mapsto> NameArray []),
                    fresh = Suc (Suc (Suc (fresh h)))\<rparr>"
  have r: "single = fresh h" "multiple = Suc (fresh h)" "remaining = Suc (Suc (fresh h))"
    and h': "h' = fullMatchLoop_store steamApps single multiple remaining
                    (names_at h3 gameNames) h3"
    using assms(3)
    by (auto simp: findSteamAppIdsFullMatch_store_def alloc_def Let_def h3_def)
  have d: "steamApps \<noteq> single" "steamApps \<noteq> multiple" "steamApps \<noteq> remaining"
    "single \<noteq> multiple" "single \<noteq> remaining" "multiple \<noteq> remaining"
    using assms(1) r by simp_all
  have i: "apps_at h3 steamApps = apps_at h steamApps"
    "names_at h3 gameNames = names_at h gameNames"
    "ids_at h3 single = []" "idlists_at h3 multiple = []" "names_at h3 remaining = []"
    using assms(1,2) r
    by (simp_all add: apps_at_def names_at_def ids_at_def idlists_at_def h3_def)
  show ?thesis
    using fullMatchLoop_store_refines [OF d, of "names_at h3 gameNames" h3]
    unfolding h' i
    by (simp add: findSteamAppIdsFullMatch_def)
qed

lemma bestMatchStep_store_refines:
  assumes "best \<noteq> noMatch" "steamApps \<noteq> best" "steamApps \<noteq> noMatch"
    "sal \<noteq> best" "sal \<noteq> noMatch"
  shows "case bestMatchStep onEmpty cmp thr (apps_at h steamApps) (names_at h sal)
                \<lparr>steamIDsBestMatch = matches_at h best, steamIDsNoMatch = names_at h noMatch\<rparr>
                game gl of
           Inl e \<Rightarrow> bestMatchStep_store onEmpty cmp thr steamApps sal best noMatch h game gl = Inl e
         | Inr r \<Rightarrow>
             (\<exists>h'. bestMatchStep_store onEmpty cmp thr steamApps sal best noMatch h game gl = Inr h'
                 \<and> matches_at h' best = steamIDsBestMatch r
                 \<and> names_at h' noMatch = steamIDsNoMatch r)"
  using assms
  by (auto simp: bestMatchStep_def bestMatchStep_store_def put_def matches_at_def names_at_def
           split: sum.splits)

lemma bestMatchLoop_store_refines:
  assumes "best \<noteq> noMatch" "steamApps \<noteq> best" "steamApps \<noteq> noMatch"
    "sal \<noteq> best" "sal \<noteq> noMatch" "gn \<noteq> best" "gn \<noteq> noMatch" "gnl \<noteq> best" "gnl \<noteq> noMatch"
  shows "case bestMatchLoop onEmpty cmp thr (apps_at h steamApps) (names_at h sal) (names_at h gn)
                (names_at h gnl) idxs
                \<lparr>steamIDsBestMatch = matches_at h best, steamIDsNoMatch = names_at h noMatch\<rparr> of
           Inl e \<Rightarrow>
             fst (bestMatchLoop_store onEmpty cmp thr steamApps sal gn gnl best noMatch idxs h) = Some e
         | Inr r \<Rightarrow>
             fst (bestMatchLoop_store onEmpty cmp thr steamApps sal gn gnl best noMatch idxs h) = None
             \<and> matches_at (snd (bestMatchLoop_store onEmpty cmp thr steamApps sal gn gnl best noMatch
                                   idxs h)) best = steamIDsBestMatch r
             \<and> names_at (snd (bestMatchLoop_store onEmpty cmp thr steamApps sal gn gnl best noMatch
                                 idxs h)) noMatch = steamIDsNoMatch r"
proof (induction idxs arbitrary: h)
  case Nil
  show ?case by simp
next
  case (Cons i idxs)
  let ?r0 = "\<lparr>steamIDsBestMatch = matches_at h best, steamIDsNoMatch = names_at h noMatch\<rparr>"
  note step = bestMatchStep_store_refines [OF assms(1-5), where onEmpty = onEmpty
                and cmp = cmp and thr = thr
                and h = h and game = "names_at h gn ! i" and gl = "names_at h gnl ! i"]
  show ?case
  proof (cases "bestMatchStep onEmpty cmp thr (apps_at h steamApps) (names_at h sal) ?r0
                  (names_at h gn ! i) (names_at h gnl ! i)")
    case (Inl e)
    then show ?thesis
      using step by simp
  next
    case (Inr r)
    then obtain h' where h': "bestMatchStep_store onEmpty cmp thr steamApps sal best noMatch h
                                (names_at h gn ! i) (names_at h gnl ! i) = Inr h'"
      and b: "matches_at h' best = steamIDsBestMatch r"
      and n: "names_at h' noMatch = steamIDsNoMatch r"
      using step by auto
    have same: "apps_at h' steamApps = apps_at h steamApps" "names_at h' sal = names_at h sal"
      "names_at h' gn = names_at h gn" "names_at h' gnl = names_at h gnl"
      using bestMatchStep_store_frame [OF h'] assms
      by (simp_all add: apps_at_def names_at_def)
    have r: "\<lparr>steamIDsBestMatch = matches_at h' best, steamIDsNoMatch = names_at h' noMatch\<rparr> = r"
      by (simp add: b n)
    have e1: "bestMatchLoop_store onEmpty cmp thr steamApps sal gn gnl best noMatch (i # idxs) h
                = bestMatchLoop_store onEmpty cmp thr steamApps sal gn gnl best noMatch idxs h'"
      by (simp add: h')
    have e2: "bestMatchLoop onEmpty cmp thr (apps_at h steamApps) (names_at h sal) (names_at h gn)
                (names_at h gnl) (i # idxs) ?r0
              = bestMatchLoop onEmpty cmp thr (apps_at h steamApps) (names_at h sal) (names_at h gn)
                (names_at h gnl) idxs r"
      by (simp add: Inr)
    show ?thesis
      unfolding e1 e2 using Cons [of h', unfolded same r] .
  qed
qed

lemma findSteamAppIdsBestMatch_store_refines:
  assumes "steamApps < fresh h" and "gameNames < fresh h"
  shows "case findSteamAppIdsBestMatch onEmpty cmp CONFIG (names_at h gameNames) (apps_at h steamApps) of
           Inl e \<Rightarrow>
             fst (findSteamAppIdsBestMatch_store onEmpty cmp CONFIG gameNames steamApps h) = Inl e
         | Inr r \<Rightarrow>
             (\<exists>sorted noMatch.
                fst (findSteamAppIdsBestMatch_store onEmpty cmp CONFIG gameNames steamApps h)
                  = Inr (sorted, noMatch)
                \<and> matches_at (snd (findSteamAppIdsBestMatch_store onEmpty cmp CONFIG gameNames steamApps h))
                     sorted = steamIDsBestMatch r
                \<and> names_at (snd (findSteamAppIdsBestMatch_store onEmpty cmp CONFIG gameNames steamApps h))
                     noMatch = steamIDsNoMatch r)"
proof -
  obtain sal h1 where 1: "alloc (NameArray (map (\<lambda>a. toLowerCase (name a)) (apps_at h steamApps))) h
                           = (sal, h1)"
    by (simp add: alloc_def)
  obtain gnl h2 where 2: "alloc (NameArray (map toLowerCase (names_at h1 gameNames))) h1 = (gnl, h2)"
    by (simp add: alloc_def)
  obtain best h3 where 3: "alloc (MatchObject []) h2 = (best, h3)"
    by (simp add: alloc_def)
  obtain noMatch h4 where 4: "alloc (NameArray []) h3 = (noMatch, h4)"
    by (simp add: alloc_def)
  obtain err h5 where 5: "bestMatchLoop_store onEmpty cmp (thresholdOf CONFIG) steamApps sal
                gameNames gnl best noMatch [0..<length (names_at h4 gnl)] h4 = (err, h5)"
    by (cases "bestMatchLoop_store onEmpty cmp (thresholdOf CONFIG) steamApps sal
                gameNames gnl best noMatch [0..<length (names_at h4 gnl)] h4") simp
  have refs: "sal = fresh h" "gnl = Suc (fresh h)" "best = Suc (Suc (fresh h))"
    "noMatch = Suc (Suc (Suc (fresh h)))"
    using 1 2 3 4 by (auto simp: alloc_def)
  have d: "best \<noteq> noMatch" "steamApps \<noteq> best" "steamApps \<noteq> noMatch" "sal \<noteq> best" "sal \<noteq> noMatch"
    "gameNames \<noteq> best" "gameNames \<noteq> noMatch" "gnl \<noteq> best" "gnl \<noteq> noMatch"
    using assms refs by simp_all
  have i: "apps_at h4 steamApps = apps_at h steamApps"
    "names_at h4 sal = map (\<lambda>a. toLowerCase (name a)) (apps_at h steamApps)"
    "names_at h4 gameNames = names_at h gameNames"
    "names_at h4 gnl = map toLowerCase (names_at h gameNames)"
    "matches_at h4 best = []" "names_at h4 noMatch = []"
    using assms 1 2 3 4
    by (auto simp: alloc_def apps_at_def names_at_def matches_at_def)
  have f5: "fresh h5 = Suc (Suc (Suc (Suc (fresh h))))"
    using bestMatchLoop_store_fresh [of onEmpty cmp "thresholdOf CONFIG" steamApps sal
            gameNames gnl best noMatch "[0..<length (names_at h4 gnl)]" h4] 1 2 3 4 5
    by (auto simp: alloc_def)
  have loop5: "bestMatchLoop_store onEmpty cmp (thresholdOf CONFIG) steamApps sal
                gameNames gnl best noMatch [0..<length (names_at h gameNames)] h4 = (err, h5)"
    using 5 i by simp
  note loop = bestMatchLoop_store_refines [OF d, where onEmpty = onEmpty and cmp = cmp
                and thr = "thresholdOf CONFIG"
                and h = h4 and idxs = "[0..<length (names_at h gameNames)]", unfolded i loop5]
  show ?thesis
  proof (cases "bestMatchLoop onEmpty cmp (thresholdOf CONFIG) (apps_at h steamApps)
                  (map (\<lambda>a. toLowerCase (name a)) (apps_at h steamApps)) (names_at h gameNames)
                  (map toLowerCase (names_at h gameNames)) [0..<length (names_at h gameNames)]
                  \<lparr>steamIDsBestMatch = [], steamIDsNoMatch = []\<rparr>")
    case (Inl e)
    then have "err = Some e"
      using loop by simp
    then have "fst (findSteamAppIdsBestMatch_store onEmpty cmp CONFIG gameNames steamApps h) = Inl e"
      using 1 2 3 4 5 by (simp add: findSteamAppIdsBestMatch_store_def Let_def)
    then show ?thesis
      using Inl by (simp add: findSteamAppIdsBestMatch_def Let_def)
  next
    case (Inr r)
    then have l: "err = None" "matches_at h5 best = steamIDsBestMatch r"
      "names_at h5 noMatch = steamIDsNoMatch r"
      using loop by simp_all
    have st: "findSteamAppIdsBestMatch_store onEmpty cmp CONFIG gameNames steamApps h =
      (Inr (Suc (fresh h5), noMatch),
       \<lparr>cells = (cells h5)
          (fresh h5 \<mapsto> EntryArray (sortBySimilarity (entries (matches_at h5 best))),
           Suc (fresh h5) \<mapsto>
             MatchObject (fromEntries (sortBySimilarity (entries (matches_at h5 best))))),
        fresh = Suc (Suc (fresh h5))\<rparr>)"
      using 1 2 3 4 5 l(1)
      by (simp add: findSteamAppIdsBestMatch_store_def Let_def)
         (simp add: alloc_def put_def entries_at_def)
    have pure: "findSteamAppIdsBestMatch onEmpty cmp CONFIG (names_at h gameNames) (apps_at h steamApps)
       = Inr (r\<lparr>steamIDsBestMatch :=
                  fromEntries (sortBySimilarity (entries (steamIDsBestMatch r)))\<rparr>)"
      using Inr by (simp add: findSteamAppIdsBestMatch_def Let_def)
    have no: "noMatch \<noteq> fresh h5" "noMatch \<noteq> Suc (fresh h5)"
      using refs f5 by simp_all
    show ?thesis
      unfolding pure st using l no
      by (simp add: matches_at_def names_at_def)
  qed
qed

text \<open>
  C9: neither pass writes to the catalog array or to the array of query names it is
  given. On the store, every cell that exists when a pass is called, and so the two
  input arrays with all their entries and strings, is the same after the pass, also
  when the similarity pass throws; the lower-cased names are in new arrays. (The store
  passes compute the results of the passes above: \<open>findSteamAppIdsFullMatch_store_refines\<close>,
  \<open>findSteamAppIdsBestMatch_store_refines\<close>.)
\<close>

theorem C9_passes_leave_inputs_unchanged:
  "steamApps < fresh h \<Longrightarrow> gameNames < fresh h \<Longrightarrow>
     apps_at (snd (findSteamAppIdsFullMatch_store gameNames steamApps h)) steamApps
       = apps_at h steamApps
   \<and> names_at (snd (findSteamAppIdsFullMatch_store gameNames steamApps h)) gameNames
       = names_at h gameNames
   \<and> apps_at (snd (findSteamAppIdsBestMatch_store onEmpty cmp CONFIG gameNames steamApps h)) steamApps
       = apps_at h steamApps
   \<and> names_at (snd (findSteamAppIdsBestMatch_store onEmpty cmp CONFIG gameNames steamApps h)) gameNames
       = names_at h gameNames
   \<and> (\<forall>a. a < fresh h \<longrightarrow>
          cells (snd (findSteamAppIdsFullMatch_store gameNames steamApps h)) a = cells h a
          \<and> cells (snd (findSteamAppIdsBestMatch_store onEmpty cmp CONFIG gameNames steamApps h)) a
              = cells h a)"
  by (simp add: apps_at_def names_at_def findSteamAppIdsFullMatch_store_frame
        findSteamAppIdsBestMatch_store_frame)

theorem C9_passes_leave_inputs_unchanged_witness:
  "0 < fresh example_store \<and> 1 < fresh example_store
   \<and> apps_at (snd (findSteamAppIdsFullMatch_store 1 0 example_store)) 0 = example_catalog
   \<and> names_at (snd (findSteamAppIdsFullMatch_store 1 0 example_store)) 1 = example_names
   \<and> apps_at (snd (findSteamAppIdsBestMatch_store throwing compareTwoStrings half_config 1 0
                      example_store)) 0 = example_catalog
   \<and> names_at (snd (findSteamAppIdsBestMatch_store throwing compareTwoStrings half_config 1 0
                       example_store)) 1 = example_names"
proof -
  have a: "0 < fresh example_store" and b: "1 < fresh example_store"
    by (simp_all add: example_store_def)
  have c: "apps_at example_store 0 = example_catalog"
    "names_at example_store (Suc 0) = example_names"
    by (simp_all add: example_store_def apps_at_def names_at_def)
  note h = C9_passes_leave_inputs_unchanged [OF a b, where onEmpty = throwing
      and cmp = compareTwoStrings and CONFIG = half_config]
  from a b h [THEN conjunct1] h [THEN conjunct2, THEN conjunct1]
    h [THEN conjunct2, THEN conjunct2, THEN conjunct1]
    h [THEN conjunct2, THEN conjunct2, THEN conjunct2, THEN conjunct1]
  show ?thesis
    by (simp add: c)
qed

end
